theory Spec2Isabelle
  imports Complex_Main "HOL-Library.Sublist"
begin

section \<open>Data model (types.ts)\<close>

text \<open>
  JavaScript numbers are modelled as reals: rounding, \<open>NaN\<close> and the infinities are not
  represented. Where the source divides, HOL's total division is used; a quotient by zero
  (\<open>Infinity\<close> or \<open>NaN\<close> in JavaScript) is outside the model, and statements that depend
  on a quotient name the non-zero divisor; those that depend on a power with a general
  exponent name \<open>powFinite\<close>. A value that may be \<open>null\<close> is an \<open>option\<close>.
  The fields \<open>x\<close>, \<open>y\<close>, \<open>id\<close> and \<open>length\<close> of the source carry a prefix here.
\<close>

record point =
  px :: real
  py :: real

record node = point +
  node_id :: string
  label :: string

record edge =
  edge_id :: string
  sourceId :: string
  targetId :: string
  edge_length :: real
  capacity :: real
  baseSpeed :: real
  baseTravelTime :: real
  currentLoad :: real
  currentWeight :: real
  isClosed :: bool

record router = point +
  router_id :: string
  mappedEdgeIds :: "string list"

datatype truckState = Moving | Waiting | Broken | Idle | Finished

record truck =
  truck_id :: string
  position :: point
  currentEdgeId :: "string option"
  distanceAlongEdge :: real
  speed :: real
  state :: truckState
  routePlan :: "string list"
  destinationNodeId :: "string option"
  inferredRouterId :: "string option"
  inferredEdgeId :: "string option"
  lastRouterSwitchTime :: real
  consecutiveRouterReads :: real
  potentialRouterId :: "string option"
  totalDistance :: real
  totalTime :: real
  rerouteCount :: real

datatype overflowPolicy = Queue | ClosedWhenFull

record simulationConfig =
  dt :: real
  hysteresisN :: real
  routerNoiseSigma :: real
  alpha :: real
  beta :: real
  rerouteInterval :: real
  truckSpeedMin :: real
  truckSpeedMax :: real
  policy :: overflowPolicy

type_synonym nodeMap = "string \<rightharpoonup> node"

section \<open>Geometry (services/geometry.ts)\<close>

text \<open>
  \<open>Math.pow\<close> is a finite number in these cases: exponent \<open>0\<close> (the result is \<open>1\<close>), a
  positive base, base \<open>0\<close> with a positive exponent (the result is \<open>0\<close>), and a negative
  base with an integer exponent (the signed integer power). In the remaining cases, base
  \<open>0\<close> with a negative exponent and a negative base with a fractional exponent, it is
  \<open>Infinity\<close> or \<open>NaN\<close>, which the model does not have: \<open>math_pow\<close> is \<open>0\<close> there only to
  be total, and a theorem that states the value of a power either has the exponent \<open>2\<close>,
  for which \<open>powFinite\<close> always holds, or assumes \<open>powFinite\<close>.
\<close>

definition powFinite :: "real \<Rightarrow> real \<Rightarrow> bool" where
  "powFinite b e = (e = 0 \<or> 0 < b \<or> (b = 0 \<and> 0 < e) \<or> (b < 0 \<and> e \<in> \<int>))"

definition math_pow :: "real \<Rightarrow> real \<Rightarrow> real" where
  "math_pow b e =
     (if \<not> powFinite b e then 0
      else if e = 0 then 1
      else if b = 0 then 0
      else if 0 < b then b powr e
      else b powi \<lfloor>e\<rfloor>)"

definition distance :: "('a point_scheme) \<Rightarrow> ('b point_scheme) \<Rightarrow> real" where
  "distance p1 p2 = sqrt (math_pow (px p2 - px p1) 2 + math_pow (py p2 - py p1) 2)"

definition getPointOnSegment :: "('a point_scheme) \<Rightarrow> ('b point_scheme) \<Rightarrow> real \<Rightarrow> point" where
  "getPointOnSegment p1 p2 ratio =
     \<lparr> px = px p1 + (px p2 - px p1) * ratio,
       py = py p1 + (py p2 - py p1) * ratio \<rparr>"

section \<open>Path planner (services/pathfinding.ts)\<close>

record pathResult =
  path :: "string list"
  eta :: real

text \<open>The entries of \<open>cameFrom\<close>: the edge taken and the node it was taken from.\<close>

type_synonym cameFromMap = "string \<rightharpoonup> (string \<times> string)"

type_synonym scoreMap = "string \<rightharpoonup> real"

text \<open>
  The search state of the \<open>while\<close> loop: \<open>openSet\<close> (a JavaScript \<open>Set\<close>, iterated in
  insertion order, so a duplicate-free list), \<open>cameFrom\<close>, \<open>gScore\<close> and \<open>fScore\<close>.
\<close>

type_synonym searchState = "string list \<times> cameFromMap \<times> scoreMap \<times> scoreMap"

text \<open>A missing score reads as \<open>Infinity\<close> (\<open>?? Infinity\<close>): \<open>None\<close> stands for it.\<close>

definition lessInf :: "real option \<Rightarrow> real option \<Rightarrow> bool" where
  "lessInf a b =
     (case a of None \<Rightarrow> False
      | Some u \<Rightarrow> (case b of None \<Rightarrow> True | Some v \<Rightarrow> u < v))"

definition findEdge :: "edge list \<Rightarrow> string \<Rightarrow> edge option" where
  "findEdge es i = find (\<lambda>e. edge_id e = i) es"

text \<open>The scan for the node of \<open>openSet\<close> with the lowest \<open>fScore\<close>; starts from \<open>('''', Infinity)\<close>.\<close>

fun lowestF :: "scoreMap \<Rightarrow> string list \<Rightarrow> string \<times> real option \<Rightarrow> string \<times> real option" where
  "lowestF fScore [] acc = acc"
| "lowestF fScore (nodeId # rest) (current, minF) =
     lowestF fScore rest
       (if lessInf (fScore nodeId) minF then (nodeId, fScore nodeId) else (current, minF))"

definition setAdd :: "string \<Rightarrow> string list \<Rightarrow> string list" where
  "setAdd v s = (if v \<in> set s then s else s @ [v])"

text \<open>The body of the loop over the neighbours of \<open>current\<close>, for one edge.\<close>

definition relaxEdge :: "nodeMap \<Rightarrow> node \<Rightarrow> string \<Rightarrow> edge \<Rightarrow> searchState \<Rightarrow> searchState" where
  "relaxEdge nmap endNode current e st =
     (case st of (openSet, cameFrom, gScore, fScore) \<Rightarrow>
        let neighbor = targetId e;
            tentativeGScore = map_option (\<lambda>g. g + currentWeight e) (gScore current)
        in if lessInf tentativeGScore (gScore neighbor) then
             (case tentativeGScore of
                None \<Rightarrow> st
              | Some t \<Rightarrow>
                  let heuristic = (case nmap neighbor of
                                     Some neighborNode \<Rightarrow> distance neighborNode endNode / baseSpeed e
                                   | None \<Rightarrow> 0)
                  in (setAdd neighbor openSet,
                      cameFrom(neighbor \<mapsto> (edge_id e, current)),
                      gScore(neighbor \<mapsto> t),
                      fScore(neighbor \<mapsto> t + heuristic)))
           else st)"

partial_function (option) reconstructLoop ::
  "cameFromMap \<Rightarrow> edge list \<Rightarrow> string \<Rightarrow> string list \<Rightarrow> real \<Rightarrow> pathResult option" where
  "reconstructLoop cameFrom es cur accPath accTime =
     (case cameFrom cur of
        None \<Rightarrow> Some \<lparr> path = accPath, eta = accTime \<rparr>
      | Some prev \<Rightarrow>
          reconstructLoop cameFrom es (snd prev) (fst prev # accPath)
            (case findEdge es (fst prev) of
               Some e \<Rightarrow> accTime + currentWeight e
             | None \<Rightarrow> accTime))"

definition reconstructPath :: "cameFromMap \<Rightarrow> string \<Rightarrow> edge list \<Rightarrow> pathResult option" where
  "reconstructPath cameFrom current es = reconstructLoop cameFrom es current [] 0"

text \<open>
  The \<open>while (openSet.size > 0)\<close> loop. The outer \<open>option\<close> is \<open>None\<close> when the loop does not
  return; the inner one is the source's \<open>null\<close> (no path found).
\<close>

partial_function (option) findPathLoop ::
  "string \<Rightarrow> node \<Rightarrow> nodeMap \<Rightarrow> edge list \<Rightarrow> searchState \<Rightarrow> pathResult option option" where
  "findPathLoop endNodeId endNode nmap es st =
     (case st of (openSet, cameFrom, gScore, fScore) \<Rightarrow>
        if openSet = [] then Some None
        else
          let current = fst (lowestF fScore openSet ('''', None)) in
          if current = endNodeId then map_option Some (reconstructPath cameFrom current es)
          else
            findPathLoop endNodeId endNode nmap es
              (fold (relaxEdge nmap endNode current)
                 (filter (\<lambda>e. sourceId e = current \<and> \<not> isClosed e) es)
                 (removeAll current openSet, cameFrom, gScore, fScore)))"

definition findPath :: "string \<Rightarrow> string \<Rightarrow> nodeMap \<Rightarrow> edge list \<Rightarrow> pathResult option option" where
  "findPath startNodeId endNodeId nmap es =
     (case nmap startNodeId of
        None \<Rightarrow> Some None
      | Some startNode \<Rightarrow>
          (case nmap endNodeId of
             None \<Rightarrow> Some None
           | Some endNode \<Rightarrow>
               findPathLoop endNodeId endNode nmap es
                 ([startNodeId], Map.empty,
                  [startNodeId \<mapsto> 0],
                  [startNodeId \<mapsto> distance startNode endNode])))"

text \<open>\<open>distanceToSegment\<close> and \<open>findNearestEdge\<close>, used when a router is added.\<close>

definition distanceToSegment :: "('a point_scheme) \<Rightarrow> ('b point_scheme) \<Rightarrow> ('c point_scheme) \<Rightarrow> real" where
  "distanceToSegment p v w =
     (let l2 = math_pow (distance v w) 2 in
      if l2 = 0 then distance p v
      else
        let t = ((px p - px v) * (px w - px v) + (py p - py v) * (py w - py v)) / l2;
            t' = max 0 (min 1 t);
            projection = \<lparr> px = px v + t' * (px w - px v), py = py v + t' * (py w - py v) \<rparr>
        in distance p projection)"

fun nearestEdgeScan ::
  "('a point_scheme) \<Rightarrow> nodeMap \<Rightarrow> edge list \<Rightarrow> real option \<times> string option \<Rightarrow> real option \<times> string option" where
  "nearestEdgeScan p nmap [] acc = acc"
| "nearestEdgeScan p nmap (e # rest) (minDist, nearestId) =
     nearestEdgeScan p nmap rest
       (case nmap (sourceId e) of
          None \<Rightarrow> (minDist, nearestId)
        | Some start \<Rightarrow>
            (case nmap (targetId e) of
               None \<Rightarrow> (minDist, nearestId)
             | Some finish \<Rightarrow>
                 let d = distanceToSegment p start finish in
                 if lessInf (Some d) minDist then (Some d, Some (edge_id e))
                 else (minDist, nearestId)))"

definition findNearestEdge :: "('a point_scheme) \<Rightarrow> edge list \<Rightarrow> nodeMap \<Rightarrow> string option" where
  "findNearestEdge p es nmap = snd (nearestEdgeScan p nmap es (None, None))"

text \<open>
  \<open>gaussianRandom\<close> draws a standard normal sample from \<open>Math.random\<close>; the sample \<open>z\<close> is
  an input of the model.
\<close>

definition gaussianRandom :: "real \<Rightarrow> real \<Rightarrow> real \<Rightarrow> real" where
  "gaussianRandom mean stdev z = z * stdev + mean"

section \<open>The engine (services/SimulationEngine.ts)\<close>

record engine =
  nodes :: nodeMap
  edges :: "edge list"
  routers :: "router list"
  trucks :: "truck list"
  time :: real
  config :: simulationConfig
  nextTruckId :: nat
  completedTrips :: real
  totalTripTime :: real
  totalTripDistance :: real
  baseTripTimeAccumulator :: real

text \<open>An object found by \<open>Array.find\<close> and then mutated: the first match is replaced.\<close>

fun updateFirst :: "('a \<Rightarrow> bool) \<Rightarrow> ('a \<Rightarrow> 'a) \<Rightarrow> 'a list \<Rightarrow> 'a list" where
  "updateFirst P f [] = []"
| "updateFirst P f (v # vs) = (if P v then f v # vs else v # updateFirst P f vs)"

definition modifyEdge :: "string \<Rightarrow> (edge \<Rightarrow> edge) \<Rightarrow> edge list \<Rightarrow> edge list" where
  "modifyEdge i f es = updateFirst (\<lambda>e. edge_id e = i) f es"

text \<open>A string is falsy in JavaScript when it is empty, as \<open>null\<close> is.\<close>

definition truthy :: "string option \<Rightarrow> bool" where
  "truthy v = (case v of None \<Rightarrow> False | Some i \<Rightarrow> i \<noteq> [])"

subsection \<open>Topology edits\<close>

definition autoMap :: "edge list \<Rightarrow> nodeMap \<Rightarrow> router \<Rightarrow> router" where
  "autoMap es nmap r =
     (if mappedEdgeIds r = [] then
        (case findNearestEdge r es nmap of
           None \<Rightarrow> r
         | Some nearest \<Rightarrow> if nearest = [] then r else r\<lparr> mappedEdgeIds := [nearest] \<rparr>)
      else r)"

definition loadMap :: "node list \<Rightarrow> edge list \<Rightarrow> router list \<Rightarrow> engine \<Rightarrow> engine" where
  "loadMap ns es rs s =
     (let nmap = fold (\<lambda>n m. m(node_id n \<mapsto> n)) ns Map.empty in
      s\<lparr> nodes := nmap, edges := es, routers := map (autoMap es nmap) rs,
         trucks := [], time := 0, completedTrips := 0, totalTripTime := 0,
         totalTripDistance := 0, nextTruckId := 1 \<rparr>)"

definition clearSimulation :: "engine \<Rightarrow> engine" where
  "clearSimulation s =
     s\<lparr> trucks := [], time := 0, completedTrips := 0, totalTripTime := 0,
        totalTripDistance := 0, baseTripTimeAccumulator := 0, nextTruckId := 1,
        edges := map (\<lambda>e. e\<lparr> currentLoad := 0, currentWeight := baseTravelTime e \<rparr>) (edges s) \<rparr>"

definition addNode :: "node \<Rightarrow> engine \<Rightarrow> engine" where
  "addNode n s = s\<lparr> nodes := (nodes s)(node_id n \<mapsto> n) \<rparr>"

definition removeNode :: "string \<Rightarrow> engine \<Rightarrow> engine" where
  "removeNode i s =
     (let es = filter (\<lambda>e. sourceId e \<noteq> i \<and> targetId e \<noteq> i) (edges s) in
      s\<lparr> nodes := (nodes s)(i := None), edges := es,
         routers := map (\<lambda>r. r\<lparr> mappedEdgeIds :=
                       filter (\<lambda>eid. eid \<in> set (map edge_id es)) (mappedEdgeIds r) \<rparr>) (routers s) \<rparr>)"

definition addEdge :: "edge \<Rightarrow> engine \<Rightarrow> engine" where
  "addEdge e s = s\<lparr> edges := edges s @ [e] \<rparr>"

definition removeEdge :: "string \<Rightarrow> engine \<Rightarrow> engine" where
  "removeEdge i s =
     s\<lparr> edges := filter (\<lambda>e. edge_id e \<noteq> i) (edges s),
        routers := map (\<lambda>r. r\<lparr> mappedEdgeIds := filter (\<lambda>eid. eid \<noteq> i) (mappedEdgeIds r) \<rparr>)
                     (routers s) \<rparr>"

definition addRouter :: "router \<Rightarrow> engine \<Rightarrow> engine" where
  "addRouter r s =
     s\<lparr> routers := routers s @
          [case findNearestEdge r (edges s) (nodes s) of
             None \<Rightarrow> r\<lparr> mappedEdgeIds := [] \<rparr>
           | Some nearest \<Rightarrow>
               if nearest = [] then r\<lparr> mappedEdgeIds := [] \<rparr>
               else r\<lparr> mappedEdgeIds := [nearest] \<rparr>] \<rparr>"

definition removeRouter :: "string \<Rightarrow> engine \<Rightarrow> engine" where
  "removeRouter i s = s\<lparr> routers := filter (\<lambda>r. router_id r \<noteq> i) (routers s) \<rparr>"

text \<open>The closure toggle of the application (\<open>handleToggleClosure\<close>), which writes the edge directly.\<close>

definition toggleClosure :: "string \<Rightarrow> engine \<Rightarrow> engine" where
  "toggleClosure i s = s\<lparr> edges := modifyEdge i (\<lambda>e. e\<lparr> isClosed := \<not> isClosed e \<rparr>) (edges s) \<rparr>"

subsection \<open>Spawning\<close>

function showNat :: "nat \<Rightarrow> string" where
  "showNat n =
     (if n < 10 then [''0123456789'' ! n]
      else showNat (n div 10) @ [''0123456789'' ! (n mod 10)])"
  by pat_completeness auto
termination
  by (relation "measure (\<lambda>n. n)") auto

text \<open>
  \<open>spawnTruck\<close> returns nothing in the source. The model returns the lines written with
  \<open>console.warn\<close> and the engine after the call; \<open>None\<close> is a planner that does not return.
  \<open>rnd\<close> is the sample of \<open>Math.random\<close>.
\<close>

definition newTruck :: "engine \<Rightarrow> node \<Rightarrow> edge \<Rightarrow> string list \<Rightarrow> string \<Rightarrow> real \<Rightarrow> truck" where
  "newTruck s startNode firstEdge plan endNodeId rnd =
     \<lparr> truck_id = ''T-'' @ showNat (nextTruckId s),
       position = \<lparr> px = px startNode, py = py startNode \<rparr>,
       currentEdgeId = Some (edge_id firstEdge),
       distanceAlongEdge = 0,
       speed = rnd * (truckSpeedMax (config s) - truckSpeedMin (config s)) + truckSpeedMin (config s),
       state = Moving,
       routePlan = plan,
       destinationNodeId = Some endNodeId,
       inferredRouterId = None,
       inferredEdgeId = None,
       lastRouterSwitchTime = 0,
       consecutiveRouterReads = 0,
       potentialRouterId = None,
       totalDistance = 0,
       totalTime = 0,
       rerouteCount = 0 \<rparr>"

definition spawnTruck :: "real \<Rightarrow> string \<Rightarrow> string \<Rightarrow> engine \<Rightarrow> (string list \<times> engine) option" where
  "spawnTruck rnd startNodeId endNodeId s =
     (case nodes s startNodeId of
        None \<Rightarrow> Some ([], s)
      | Some startNode \<Rightarrow>
          (case findPath startNodeId endNodeId (nodes s) (edges s) of
             None \<Rightarrow> None
           | Some None \<Rightarrow> Some ([''No path found for new truck''], s)
           | Some (Some routeResult) \<Rightarrow>
               (case path routeResult of
                  [] \<Rightarrow> Some ([''No path found for new truck''], s)
                | firstId # rest \<Rightarrow>
                    (case findEdge (edges s) firstId of
                       None \<Rightarrow> Some ([], s)
                     | Some firstEdge \<Rightarrow>
                         Some ([],
                           s\<lparr> nextTruckId := Suc (nextTruckId s),
                              edges := modifyEdge (edge_id firstEdge)
                                         (\<lambda>e. e\<lparr> currentLoad := currentLoad e + 1 \<rparr>) (edges s),
                              trucks := trucks s @
                                [newTruck s startNode firstEdge (path routeResult) endNodeId rnd] \<rparr>)))))"

subsection \<open>The tick\<close>

text \<open>Phase 1, for one truck: the body of the first \<open>forEach\<close>. It writes the truck, the edge loads and the trip counters.\<close>

definition lookupEdge :: "edge list \<Rightarrow> string option \<Rightarrow> edge option" where
  "lookupEdge es i = (case i of None \<Rightarrow> None | Some j \<Rightarrow> findEdge es j)"

definition advanceTruck :: "engine \<Rightarrow> edge \<Rightarrow> truck \<Rightarrow> truck" where
  "advanceTruck s currentEdge t =
     (let moveDist = speed t * dt (config s);
          t1 = t\<lparr> distanceAlongEdge := distanceAlongEdge t + moveDist,
                  totalDistance := totalDistance t + moveDist,
                  totalTime := totalTime t + dt (config s) \<rparr>
      in case nodes s (sourceId currentEdge) of
           None \<Rightarrow> t1
         | Some startNode \<Rightarrow>
             (case nodes s (targetId currentEdge) of
                None \<Rightarrow> t1
              | Some endNode \<Rightarrow>
                  t1\<lparr> position := getPointOnSegment startNode endNode
                         (min 1 (distanceAlongEdge t1 / edge_length currentEdge)) \<rparr>))"

definition shiftPlan :: "truck \<Rightarrow> truck" where
  "shiftPlan t =
     (case routePlan t of
        [] \<Rightarrow> t
      | p # rest \<Rightarrow> if Some p = currentEdgeId t then t\<lparr> routePlan := rest \<rparr> else t)"

definition leaveEdge :: "edge \<Rightarrow> engine \<Rightarrow> engine" where
  "leaveEdge currentEdge s =
     s\<lparr> edges := modifyEdge (edge_id currentEdge)
                   (\<lambda>e. e\<lparr> currentLoad := max 0 (currentLoad e - 1) \<rparr>) (edges s) \<rparr>"

definition enterNext :: "truck \<Rightarrow> engine \<Rightarrow> truck \<times> engine" where
  "enterNext t s =
     (case routePlan t of
        [] \<Rightarrow>
          (t\<lparr> state := Finished, currentEdgeId := None \<rparr>,
           s\<lparr> completedTrips := completedTrips s + 1,
              totalTripTime := totalTripTime s + totalTime t,
              totalTripDistance := totalTripDistance s + totalDistance t \<rparr>)
      | nextEdgeId # rest \<Rightarrow>
          (case findEdge (edges s) nextEdgeId of
             None \<Rightarrow> (t\<lparr> state := Waiting \<rparr>, s)
           | Some nextEdge \<Rightarrow>
               if \<not> isClosed nextEdge \<or> policy (config s) = Queue then
                 (t\<lparr> currentEdgeId := Some (edge_id nextEdge) \<rparr>,
                  s\<lparr> edges := modifyEdge (edge_id nextEdge)
                                (\<lambda>e. e\<lparr> currentLoad := currentLoad e + 1 \<rparr>) (edges s) \<rparr>)
               else (t\<lparr> state := Waiting \<rparr>, s)))"

definition moveTruck :: "truck \<Rightarrow> engine \<Rightarrow> truck \<times> engine" where
  "moveTruck t s =
     (if state t \<noteq> Moving then (t, s)
      else
        (case lookupEdge (edges s) (currentEdgeId t) of
           None \<Rightarrow> (t\<lparr> state := Idle \<rparr>, s)
         | Some currentEdge \<Rightarrow>
             let t2 = advanceTruck s currentEdge t in
             if edge_length currentEdge \<le> distanceAlongEdge t2 then
               enterNext (shiftPlan (t2\<lparr> distanceAlongEdge := 0 \<rparr>)) (leaveEdge currentEdge s)
             else (t2, s)))"

fun moveTrucks :: "truck list \<Rightarrow> engine \<Rightarrow> truck list \<times> engine" where
  "moveTrucks [] s = ([], s)"
| "moveTrucks (t # ts) s =
     (case moveTruck t s of
        (t', s') \<Rightarrow> (case moveTrucks ts s' of (ts', s'') \<Rightarrow> (t' # ts', s'')))"

text \<open>Phase 1 with the removal of the finished trucks that follows it.\<close>

definition motionPhase :: "engine \<Rightarrow> engine" where
  "motionPhase s =
     (case moveTrucks (trucks s) s of
        (ts, s') \<Rightarrow> s'\<lparr> trucks := filter (\<lambda>t. state t \<noteq> Finished) ts \<rparr>)"

text \<open>
  Phase 2. The scan over the routers keeps the smallest noisy distance; \<open>zs k\<close> is the normal
  sample drawn for the router at position \<open>k\<close>.
\<close>

fun nearestRouterScan ::
  "point \<Rightarrow> real \<Rightarrow> (nat \<Rightarrow> real) \<Rightarrow> router list \<Rightarrow> nat \<Rightarrow> real option \<times> string option
     \<Rightarrow> real option \<times> string option" where
  "nearestRouterScan pos sigma zs [] k acc = acc"
| "nearestRouterScan pos sigma zs (r # rest) k (minD, nearestRouterId) =
     (let noise = (if 0 < sigma then gaussianRandom 0 sigma (zs k) else 0);
          d = distance pos r + noise
      in nearestRouterScan pos sigma zs rest (Suc k)
           (if lessInf (Some d) minD then (Some d, Some (router_id r)) else (minD, nearestRouterId)))"

definition commitRouter :: "router list \<Rightarrow> real \<Rightarrow> string \<Rightarrow> truck \<Rightarrow> truck" where
  "commitRouter rs now c t =
     (let t2 = t\<lparr> inferredRouterId := Some c, lastRouterSwitchTime := now \<rparr> in
      case find (\<lambda>r. router_id r = c) rs of
        None \<Rightarrow> t2
      | Some r \<Rightarrow>
          (case mappedEdgeIds r of
             [] \<Rightarrow> t2
           | i # rest \<Rightarrow> t2\<lparr> inferredEdgeId := Some i \<rparr>))"

text \<open>The hysteresis block, for the instantaneous candidate \<open>nearestRouterId\<close>.\<close>

definition hysteresis :: "real \<Rightarrow> router list \<Rightarrow> real \<Rightarrow> string option \<Rightarrow> truck \<Rightarrow> truck" where
  "hysteresis n rs now nearestRouterId t =
     (case nearestRouterId of
        None \<Rightarrow> t
      | Some c \<Rightarrow>
          if c = [] then t
          else if Some c \<noteq> inferredRouterId t then
            (let t1 = (if Some c = potentialRouterId t
                       then t\<lparr> consecutiveRouterReads := consecutiveRouterReads t + 1 \<rparr>
                       else t\<lparr> potentialRouterId := Some c, consecutiveRouterReads := 1 \<rparr>)
             in if n \<le> consecutiveRouterReads t1 then commitRouter rs now c t1 else t1)
          else t\<lparr> consecutiveRouterReads := 0, potentialRouterId := None \<rparr>)"

definition localizeTruck :: "engine \<Rightarrow> (nat \<Rightarrow> real) \<Rightarrow> truck \<Rightarrow> truck" where
  "localizeTruck s zs t =
     (if state t = Finished then t
      else hysteresis (hysteresisN (config s)) (routers s) (time s)
             (snd (nearestRouterScan (position t) (routerNoiseSigma (config s)) zs (routers s) 0
                     (None, None)))
             t)"

text \<open>\<open>noise j k\<close> is the sample for the truck at position \<open>j\<close> and the router at position \<open>k\<close>.\<close>

definition localizationPhase :: "(nat \<Rightarrow> nat \<Rightarrow> real) \<Rightarrow> engine \<Rightarrow> engine" where
  "localizationPhase noise s =
     s\<lparr> trucks := map (\<lambda>(j, t). localizeTruck s (noise j) t) (enumerate 0 (trucks s)) \<rparr>"

text \<open>Phase 3: the congestion model.\<close>

definition congestionWeight :: "simulationConfig \<Rightarrow> edge \<Rightarrow> real" where
  "congestionWeight c e =
     baseTravelTime e * (1 + alpha c * math_pow (currentLoad e / capacity e) (beta c))"

definition congestionPhase :: "engine \<Rightarrow> engine" where
  "congestionPhase s =
     s\<lparr> edges := map (\<lambda>e. e\<lparr> currentWeight := congestionWeight (config s) e \<rparr>) (edges s) \<rparr>"

text \<open>
  Phase 4. \<open>jsRem\<close> is the remainder operator \<open>%\<close>: the sign of the dividend, \<open>NaN\<close> (here
  \<open>None\<close>) for a zero divisor; a comparison with \<open>NaN\<close> is false.
\<close>

definition jsRem :: "real \<Rightarrow> real \<Rightarrow> real option" where
  "jsRem a b =
     (if b = 0 then None
      else Some (a - b * of_int (if 0 \<le> a / b then \<lfloor>a / b\<rfloor> else \<lceil>a / b\<rceil>)))"

definition rerouteTruck :: "nodeMap \<Rightarrow> edge list \<Rightarrow> truck \<Rightarrow> truck option" where
  "rerouteTruck nmap es t =
     (if state t \<noteq> Moving \<or> \<not> truthy (destinationNodeId t) \<or> \<not> truthy (currentEdgeId t)
      then Some t
      else
        (case currentEdgeId t of
           None \<Rightarrow> Some t
         | Some cid \<Rightarrow>
             (case findEdge es cid of
                None \<Rightarrow> Some t
              | Some currentEdge \<Rightarrow>
                  (case destinationNodeId t of
                     None \<Rightarrow> Some t
                   | Some dest \<Rightarrow>
                       (case findPath (targetId currentEdge) dest nmap es of
                          None \<Rightarrow> None
                        | Some None \<Rightarrow> Some t
                        | Some (Some result) \<Rightarrow>
                            Some (t\<lparr> routePlan := cid # path result,
                                    rerouteCount := rerouteCount t + 1 \<rparr>))))))"

fun rerouteAll :: "nodeMap \<Rightarrow> edge list \<Rightarrow> truck list \<Rightarrow> truck list option" where
  "rerouteAll nmap es [] = Some []"
| "rerouteAll nmap es (t # ts) =
     (case rerouteTruck nmap es t of
        None \<Rightarrow> None
      | Some t' \<Rightarrow> map_option (\<lambda>ts'. t' # ts') (rerouteAll nmap es ts))"

definition rerouteDue :: "engine \<Rightarrow> bool" where
  "rerouteDue s =
     (case jsRem (time s) (rerouteInterval (config s)) of
        None \<Rightarrow> False
      | Some r \<Rightarrow> r < dt (config s))"

definition reroutePhase :: "engine \<Rightarrow> engine option" where
  "reroutePhase s =
     (if rerouteDue s
      then map_option (\<lambda>ts. s\<lparr> trucks := ts \<rparr>) (rerouteAll (nodes s) (edges s) (trucks s))
      else Some s)"

definition afterMotion :: "engine \<Rightarrow> engine" where
  "afterMotion s = motionPhase (s\<lparr> time := time s + dt (config s) \<rparr>)"

text \<open>The engine when phase 3 of a tick has run, before the re-plan phase.\<close>

definition afterCongestion :: "(nat \<Rightarrow> nat \<Rightarrow> real) \<Rightarrow> engine \<Rightarrow> engine" where
  "afterCongestion noise s = congestionPhase (localizationPhase noise (afterMotion s))"

definition tick :: "(nat \<Rightarrow> nat \<Rightarrow> real) \<Rightarrow> engine \<Rightarrow> engine option" where
  "tick noise s = reroutePhase (congestionPhase (localizationPhase noise (afterMotion s)))"

section \<open>Vocabulary of the properties\<close>

text \<open>The weight of the edge that \<open>Array.find\<close> returns for an identifier, as \<open>reconstructPath\<close> adds it.\<close>

definition weightById :: "edge list \<Rightarrow> string \<Rightarrow> real" where
  "weightById es i = (case findEdge es i of None \<Rightarrow> 0 | Some e \<Rightarrow> currentWeight e)"



text \<open>
  Following a list of edge identifiers from a node: the node reached, or \<open>None\<close> when an
  identifier is unknown, closed, or does not leave the node reached so far.
\<close>

fun walk :: "edge list \<Rightarrow> string \<Rightarrow> string list \<Rightarrow> string option" where
  "walk es a [] = Some a"
| "walk es a (i # rest) =
     (case findEdge es i of
        None \<Rightarrow> None
      | Some e \<Rightarrow> if sourceId e = a \<and> \<not> isClosed e then walk es (targetId e) rest else None)"

text \<open>The first edge in the mapping of the first router with a given identifier, if any.\<close>

definition firstMappedEdge :: "router list \<Rightarrow> string \<Rightarrow> string option" where
  "firstMappedEdge rs c =
     (case find (\<lambda>r. router_id r = c) rs of
        None \<Rightarrow> None
      | Some r \<Rightarrow> (case mappedEdgeIds r of [] \<Rightarrow> None | i # rest \<Rightarrow> Some i))"

text \<open>
  The number of trucks of a list whose current edge is \<open>i\<close>: all of them, and those that
  are moving.
\<close>

definition onEdge :: "truck list \<Rightarrow> string \<Rightarrow> nat" where
  "onEdge ts i = length (filter (\<lambda>t. currentEdgeId t = Some i) ts)"

definition movingOn :: "truck list \<Rightarrow> string \<Rightarrow> nat" where
  "movingOn ts i = length (filter (\<lambda>t. state t = Moving \<and> currentEdgeId t = Some i) ts)"

definition loadsCountActive :: "engine \<Rightarrow> bool" where
  "loadsCountActive s = list_all (\<lambda>e. currentLoad e = real (onEdge (trucks s) (edge_id e))) (edges s)"

definition loadsCountMoving :: "edge list \<Rightarrow> truck list \<Rightarrow> bool" where
  "loadsCountMoving es ts = list_all (\<lambda>e. currentLoad e = real (movingOn ts (edge_id e))) es"

text \<open>A truck without its localization sub-state, and the waiting trucks of a list seen so.\<close>

definition frozen :: "truck \<Rightarrow> truck" where
  "frozen t =
     t\<lparr> inferredRouterId := None, inferredEdgeId := None, lastRouterSwitchTime := 0,
        consecutiveRouterReads := 0, potentialRouterId := None \<rparr>"

definition waitingView :: "truck list \<Rightarrow> truck list" where
  "waitingView ts = map frozen (filter (\<lambda>t. state t = Waiting) ts)"

text \<open>
  The operations a caller may interleave on a running engine: a tick with its noise
  samples, the live edits, the closure toggle and a spawn with its random sample.
\<close>

datatype operation =
    OpTick "nat \<Rightarrow> nat \<Rightarrow> real"
  | OpAddNode node
  | OpRemoveNode string
  | OpAddEdge edge
  | OpRemoveEdge string
  | OpAddRouter router
  | OpRemoveRouter string
  | OpToggleClosure string
  | OpSpawnTruck real string string

fun applyOp :: "operation \<Rightarrow> engine \<Rightarrow> engine option" where
  "applyOp (OpTick noise) s = tick noise s"
| "applyOp (OpAddNode n) s = Some (addNode n s)"
| "applyOp (OpRemoveNode i) s = Some (removeNode i s)"
| "applyOp (OpAddEdge e) s = Some (addEdge e s)"
| "applyOp (OpRemoveEdge i) s = Some (removeEdge i s)"
| "applyOp (OpAddRouter r) s = Some (addRouter r s)"
| "applyOp (OpRemoveRouter i) s = Some (removeRouter i s)"
| "applyOp (OpToggleClosure i) s = Some (toggleClosure i s)"
| "applyOp (OpSpawnTruck rnd a b) s = map_option snd (spawnTruck rnd a b s)"

fun runOps :: "operation list \<Rightarrow> engine \<Rightarrow> engine option" where
  "runOps [] s = Some s"
| "runOps (ope # rest) s =
     (case applyOp ope s of None \<Rightarrow> None | Some s' \<Rightarrow> runOps rest s')"

section \<open>Example scenarios\<close>

text \<open>
  A detour graph: a slow direct road from \<open>S\<close> to \<open>G\<close>, and a short slow road to \<open>M\<close>
  followed by a fast road to \<open>G\<close>. Every length is the distance between the end points,
  every free-flow time is length over speed, and no edge is loaded.
\<close>

definition mkNode :: "string \<Rightarrow> real \<Rightarrow> real \<Rightarrow> node" where
  "mkNode i a b = \<lparr> px = a, py = b, node_id = i, label = i \<rparr>"

definition mkEdge :: "string \<Rightarrow> string \<Rightarrow> string \<Rightarrow> real \<Rightarrow> real \<Rightarrow> real \<Rightarrow> edge" where
  "mkEdge i a b len sp t0 =
     \<lparr> edge_id = i, sourceId = a, targetId = b, edge_length = len, capacity = 2,
       baseSpeed = sp, baseTravelTime = t0, currentLoad = 0, currentWeight = t0,
       isClosed = False \<rparr>"

definition detourNodes :: nodeMap where
  "detourNodes = [''S'' \<mapsto> mkNode ''S'' 0 0, ''M'' \<mapsto> mkNode ''M'' 2 0, ''G'' \<mapsto> mkNode ''G'' 22 0]"

definition detourEdges :: "edge list" where
  "detourEdges =
     [mkEdge ''e1'' ''S'' ''G'' 22 2 11,
      mkEdge ''e2'' ''S'' ''M'' 2 1 2,
      mkEdge ''e3'' ''M'' ''G'' 20 20 1]"

text \<open>
  A line \<open>A \<rightarrow> B \<rightarrow> C\<close> of two roads of length 10, a router at each end, a step of one
  second and trucks that drive 10 units per second.
\<close>

definition lineNodes :: nodeMap where
  "lineNodes = [''A'' \<mapsto> mkNode ''A'' 0 0, ''B'' \<mapsto> mkNode ''B'' 10 0, ''C'' \<mapsto> mkNode ''C'' 20 0]"

definition lineEdges :: "edge list" where
  "lineEdges = [mkEdge ''ab'' ''A'' ''B'' 10 10 1, mkEdge ''bc'' ''B'' ''C'' 10 10 1]"

definition lineRouters :: "router list" where
  "lineRouters =
     [\<lparr> px = 0, py = 0, router_id = ''r1'', mappedEdgeIds = [''ab''] \<rparr>,
      \<lparr> px = 20, py = 0, router_id = ''r2'', mappedEdgeIds = [''bc''] \<rparr>]"

definition lineConfig :: simulationConfig where
  "lineConfig =
     \<lparr> dt = 1, hysteresisN = 3, routerNoiseSigma = 0, alpha = 1, beta = 2,
       rerouteInterval = 2, truckSpeedMin = 10, truckSpeedMax = 10, policy = ClosedWhenFull \<rparr>"

definition lineEngine :: engine where
  "lineEngine =
     \<lparr> nodes = lineNodes, edges = lineEdges, routers = lineRouters, trucks = [], time = 0,
       config = lineConfig, nextTruckId = 1, completedTrips = 0, totalTripTime = 0,
       totalTripDistance = 0, baseTripTimeAccumulator = 0 \<rparr>"

text \<open>The truck that \<open>spawnTruck\<close> creates on the line from \<open>A\<close> to \<open>C\<close>, and the engine after it.\<close>

definition lineTruck :: truck where
  "lineTruck =
     \<lparr> truck_id = ''T-1'', position = \<lparr> px = 0, py = 0 \<rparr>, currentEdgeId = Some ''ab'',
       distanceAlongEdge = 0, speed = 10, state = Moving, routePlan = [''ab'', ''bc''],
       destinationNodeId = Some ''C'', inferredRouterId = None, inferredEdgeId = None,
       lastRouterSwitchTime = 0, consecutiveRouterReads = 0, potentialRouterId = None,
       totalDistance = 0, totalTime = 0, rerouteCount = 0 \<rparr>"

definition lineSpawned :: engine where
  "lineSpawned =
     lineEngine\<lparr> nextTruckId := 2,
                 edges := [(mkEdge ''ab'' ''A'' ''B'' 10 10 1)\<lparr> currentLoad := 1 \<rparr>,
                           mkEdge ''bc'' ''B'' ''C'' 10 10 1],
                 trucks := [lineTruck] \<rparr>"

text \<open>A truck at \<open>C\<close> that has inferred \<open>r1\<close> and has read \<open>r2\<close> twice in a row.\<close>

definition pendingTruck :: truck where
  "pendingTruck =
     lineTruck\<lparr> position := \<lparr> px = 20, py = 0 \<rparr>, inferredRouterId := Some ''r1'',
                potentialRouterId := Some ''r2'', consecutiveRouterReads := 2 \<rparr>"

text \<open>Noise samples that are all zero.\<close>

definition quiet :: "nat \<Rightarrow> real" where
  "quiet k = 0"

definition quietTick :: "nat \<Rightarrow> nat \<Rightarrow> real" where
  "quietTick j k = 0"

text \<open>An edge of capacity 0, and the line engine at a time when re-planning is due.\<close>

definition zeroCapEdge :: edge where
  "zeroCapEdge = (mkEdge ''ac'' ''A'' ''C'' 20 10 2)\<lparr> capacity := 0 \<rparr>"

definition lineDue :: engine where
  "lineDue = lineSpawned\<lparr> time := 2 \<rparr>"

text \<open>The same with a truck on \<open>ab\<close> that is bound for \<open>A\<close>, which no road leads back to.\<close>

definition lineStranded :: engine where
  "lineStranded = lineDue\<lparr> trucks := [lineTruck\<lparr> destinationNodeId := Some ''A'' \<rparr>] \<rparr>"

text \<open>
  The line after the spawn and one tick's motion: the truck has left \<open>ab\<close> and entered \<open>bc\<close>.
  And the same with \<open>bc\<close> closed before the tick: the truck waits at \<open>B\<close>.
\<close>

definition lineMoved :: engine where
  "lineMoved =
     lineEngine\<lparr> nextTruckId := 2, time := 1,
                 edges := [mkEdge ''ab'' ''A'' ''B'' 10 10 1,
                           (mkEdge ''bc'' ''B'' ''C'' 10 10 1)\<lparr> currentLoad := 1 \<rparr>],
                 trucks := [lineTruck\<lparr> position := \<lparr> px = 10, py = 0 \<rparr>,
                              currentEdgeId := Some ''bc'', routePlan := [''bc''],
                              totalDistance := 10, totalTime := 1 \<rparr>] \<rparr>"

definition lineBlocked :: engine where
  "lineBlocked =
     lineEngine\<lparr> nextTruckId := 2, time := 1,
                 edges := [mkEdge ''ab'' ''A'' ''B'' 10 10 1,
                           (mkEdge ''bc'' ''B'' ''C'' 10 10 1)\<lparr> isClosed := True \<rparr>],
                 trucks := [lineTruck\<lparr> position := \<lparr> px = 10, py = 0 \<rparr>,
                              state := Waiting, routePlan := [''bc''],
                              totalDistance := 10, totalTime := 1 \<rparr>] \<rparr>"

section \<open>The planner\<close>

lemma powFinite_two: "powFinite v 2"
  by (cases "v = 0"; cases "0 < v") (simp_all add: powFinite_def)

lemma math_pow_two: "math_pow v 2 = v\<^sup>2"
  by (cases "v = 0"; cases "0 < v") (simp_all add: math_pow_def powFinite_two power_int_def)

lemma distance_same_py: "py p1 = py p2 \<Longrightarrow> distance p1 p2 = \<bar>px p2 - px p1\<bar>"
  by (simp add: distance_def math_pow_two)

lemma findEdge_SomeD: "findEdge es i = Some e \<Longrightarrow> e \<in> set es \<and> edge_id e = i"
  by (auto simp: findEdge_def find_Some_iff)

lemma findEdge_None_iff: "findEdge es i = None \<longleftrightarrow> i \<notin> edge_id ` set es"
  by (auto simp: findEdge_def find_None_iff)








lemma findPath_detour:
  "findPath ''S'' ''G'' detourNodes detourEdges = Some (Some \<lparr> path = [''e1''], eta = 11 \<rparr>)"
  apply (simp add: findPath_def detourNodes_def detourEdges_def mkEdge_def mkNode_def distance_same_py)
  apply (subst findPathLoop.simps)
  apply (simp add: lessInf_def relaxEdge_def setAdd_def distance_same_py Let_def)
  apply (subst findPathLoop.simps)
  apply (simp add: lessInf_def relaxEdge_def setAdd_def distance_same_py reconstructPath_def Let_def)
  apply (subst reconstructLoop.simps)
  apply (simp add: findEdge_def)
  apply (subst reconstructLoop.simps)
  apply (simp add: findEdge_def)
  done

lemma findPath_line:
  "findPath ''A'' ''C'' lineNodes lineEdges = Some (Some \<lparr> path = [''ab'', ''bc''], eta = 2 \<rparr>)"
  apply (simp add: findPath_def lineNodes_def lineEdges_def mkEdge_def mkNode_def distance_same_py)
  apply (subst findPathLoop.simps)
  apply (simp add: lessInf_def relaxEdge_def setAdd_def distance_same_py Let_def)
  apply (subst findPathLoop.simps)
  apply (simp add: lessInf_def relaxEdge_def setAdd_def distance_same_py Let_def)
  apply (subst findPathLoop.simps)
  apply (simp add: lessInf_def relaxEdge_def setAdd_def distance_same_py reconstructPath_def Let_def)
  apply (subst reconstructLoop.simps)
  apply (simp add: findEdge_def)
  apply (subst reconstructLoop.simps)
  apply (simp add: findEdge_def)
  apply (subst reconstructLoop.simps)
  apply (simp add: findEdge_def)
  done



text \<open>
  C2. On the detour graph \<open>findPath\<close> returns the direct road, of cost 11, although the route
  over \<open>M\<close> consists of open edges from \<open>S\<close> to \<open>G\<close> and costs 3: the heuristic at \<open>M\<close> divides
  the remaining distance by the speed of the slow road that leads to \<open>M\<close>, which
  overestimates the remaining time on the fast road.
\<close>

theorem findPath_detour_not_minimal:
  "findPath ''S'' ''G'' detourNodes detourEdges = Some (Some \<lparr> path = [''e1''], eta = 11 \<rparr>)
   \<and> walk detourEdges ''S'' [''e2'', ''e3''] = Some ''G''
   \<and> sum_list (map (weightById detourEdges) [''e2'', ''e3'']) = 3
   \<and> map baseTravelTime detourEdges = map (\<lambda>e. edge_length e / baseSpeed e) detourEdges
   \<and> map currentWeight detourEdges = map baseTravelTime detourEdges"
  using findPath_detour
  by (simp add: detourEdges_def mkEdge_def findEdge_def weightById_def)

section \<open>The localization filter\<close>

lemma commitRouter_fields:
  "inferredRouterId (commitRouter rs now c t) = Some c"
  "lastRouterSwitchTime (commitRouter rs now c t) = now"
  "potentialRouterId (commitRouter rs now c t) = potentialRouterId t"
  "consecutiveRouterReads (commitRouter rs now c t) = consecutiveRouterReads t"
  "inferredEdgeId (commitRouter rs now c t) =
     (case firstMappedEdge rs c of Some i \<Rightarrow> Some i | None \<Rightarrow> inferredEdgeId t)"
  by (simp_all add: commitRouter_def firstMappedEdge_def Let_def split: option.split list.split)

lemma scan_pending:
  "nearestRouterScan \<lparr> px = 20, py = 0 \<rparr> 0 zs lineRouters 0 (None, None) = (Some 0, Some ''r2'')"
  by (simp add: lineRouters_def lessInf_def distance_same_py Let_def)

lemma localize_pending:
  "localizeTruck lineEngine zs pendingTruck =
     pendingTruck\<lparr> consecutiveRouterReads := 3, inferredRouterId := Some ''r2'',
                   lastRouterSwitchTime := 0, inferredEdgeId := Some ''bc'' \<rparr>"
  using scan_pending
  by (simp add: localizeTruck_def pendingTruck_def lineTruck_def lineEngine_def lineConfig_def
      hysteresis_def commitRouter_def lineRouters_def)

text \<open>
  C3, as the code has it. For a truck that is not finished, whose instantaneous candidate
  \<open>c\<close> (a non-empty identifier) differs from the inferred router and equals the pending one:
  the count is incremented and the pending candidate stays \<open>c\<close>; when the incremented
  count is at least the threshold, the inferred router becomes \<open>c\<close>, the switch time is
  the current time and the inferred edge is the first mapped edge of \<open>c\<close> if there is one;
  otherwise these three are unchanged. The count is not reset by the commit.
\<close>

theorem localizeTruck_pending_candidate:
  assumes "state t \<noteq> Finished"
    and "snd (nearestRouterScan (position t) (routerNoiseSigma (config s)) zs (routers s) 0
               (None, None)) = Some c"
    and "c \<noteq> []"
    and "inferredRouterId t \<noteq> Some c"
    and "potentialRouterId t = Some c"
  shows "let t' = localizeTruck s zs t; k = consecutiveRouterReads t + 1 in
           consecutiveRouterReads t' = k \<and> potentialRouterId t' = Some c
         \<and> (hysteresisN (config s) \<le> k \<longrightarrow>
              inferredRouterId t' = Some c \<and> lastRouterSwitchTime t' = time s
            \<and> inferredEdgeId t' =
                (case firstMappedEdge (routers s) c of Some i \<Rightarrow> Some i | None \<Rightarrow> inferredEdgeId t))
         \<and> (\<not> hysteresisN (config s) \<le> k \<longrightarrow>
              inferredRouterId t' = inferredRouterId t
            \<and> lastRouterSwitchTime t' = lastRouterSwitchTime t
            \<and> inferredEdgeId t' = inferredEdgeId t)"
  using assms
  by (auto simp add: localizeTruck_def hysteresis_def Let_def commitRouter_fields
      split: option.split)

theorem localizeTruck_pending_candidate_witness:
  "state pendingTruck \<noteq> Finished
   \<and> snd (nearestRouterScan (position pendingTruck) (routerNoiseSigma (config lineEngine)) quiet
            (routers lineEngine) 0 (None, None)) = Some ''r2''
   \<and> inferredRouterId pendingTruck \<noteq> Some ''r2''
   \<and> potentialRouterId pendingTruck = Some ''r2''
   \<and> hysteresisN (config lineEngine) \<le> consecutiveRouterReads pendingTruck + 1
   \<and> consecutiveRouterReads (localizeTruck lineEngine quiet pendingTruck) = 3
   \<and> inferredRouterId (localizeTruck lineEngine quiet pendingTruck) = Some ''r2''
   \<and> inferredEdgeId (localizeTruck lineEngine quiet pendingTruck) = Some ''bc''"
proof -
  have h: "state pendingTruck \<noteq> Finished"
    "snd (nearestRouterScan (position pendingTruck) (routerNoiseSigma (config lineEngine)) quiet
            (routers lineEngine) 0 (None, None)) = Some ''r2''"
    "''r2'' \<noteq> []"
    "inferredRouterId pendingTruck \<noteq> Some ''r2''"
    "potentialRouterId pendingTruck = Some ''r2''"
    using scan_pending[of quiet]
    by (simp_all add: pendingTruck_def lineTruck_def lineEngine_def lineConfig_def)
  have f: "firstMappedEdge (routers lineEngine) ''r2'' = Some ''bc''"
    by (simp add: firstMappedEdge_def lineEngine_def lineRouters_def)
  have n: "hysteresisN (config lineEngine) \<le> consecutiveRouterReads pendingTruck + 1"
    by (simp add: pendingTruck_def lineTruck_def lineEngine_def lineConfig_def)
  from localizeTruck_pending_candidate[OF h] f n h show ?thesis
    by (simp add: Let_def pendingTruck_def lineTruck_def)
qed

text \<open>
  C3, as stated, fails on the reset: the truck \<open>pendingTruck\<close> commits to \<open>r2\<close> on its third
  reading, and its pending count is then 3, not 0, with the pending candidate still \<open>r2\<close>.
\<close>

theorem commit_leaves_pending_count:
  "inferredRouterId (localizeTruck lineEngine quiet pendingTruck) = Some ''r2''
   \<and> consecutiveRouterReads (localizeTruck lineEngine quiet pendingTruck) = 3
   \<and> consecutiveRouterReads (localizeTruck lineEngine quiet pendingTruck) \<noteq> 0
   \<and> potentialRouterId (localizeTruck lineEngine quiet pendingTruck) = Some ''r2''"
  unfolding localize_pending by (simp add: pendingTruck_def lineTruck_def)

text \<open>
  C6. With threshold 3, distinct non-empty identifiers \<open>a\<close> and \<open>b\<close>, and a truck whose
  inferred router is not \<open>b\<close>: after the readings \<open>a\<close>, \<open>b\<close>, \<open>b\<close> the inferred router is
  still not \<open>b\<close>, and the third reading of \<open>b\<close> makes it \<open>b\<close> and records the time of that
  reading. The pending candidate and count of the truck at the start are arbitrary.
\<close>

theorem hysteresis_commits_on_third_reading:
  assumes "a \<noteq> b" "a \<noteq> []" "b \<noteq> []" "inferredRouterId t0 \<noteq> Some b"
  shows "let t1 = hysteresis 3 rs n1 (Some a) t0;
             t2 = hysteresis 3 rs n2 (Some b) t1;
             t3 = hysteresis 3 rs n3 (Some b) t2;
             t4 = hysteresis 3 rs n4 (Some b) t3
         in inferredRouterId t1 \<noteq> Some b \<and> inferredRouterId t2 \<noteq> Some b
          \<and> inferredRouterId t3 \<noteq> Some b \<and> inferredRouterId t4 = Some b
          \<and> lastRouterSwitchTime t4 = n4"
proof -
  define t1 where "t1 = hysteresis 3 rs n1 (Some a) t0"
  have 1: "inferredRouterId t1 \<noteq> Some b \<and> potentialRouterId t1 \<noteq> Some b"
    using assms unfolding t1_def hysteresis_def
    by (auto simp add: Let_def commitRouter_fields)
  define t2 where "t2 = hysteresis 3 rs n2 (Some b) t1"
  have 2: "inferredRouterId t2 \<noteq> Some b \<and> potentialRouterId t2 = Some b
           \<and> consecutiveRouterReads t2 = 1"
    using assms 1 unfolding t2_def hysteresis_def
    by (auto simp add: Let_def)
  define t3 where "t3 = hysteresis 3 rs n3 (Some b) t2"
  have 3: "inferredRouterId t3 \<noteq> Some b \<and> potentialRouterId t3 = Some b
           \<and> consecutiveRouterReads t3 = 2"
    using assms 2 unfolding t3_def hysteresis_def
    by (auto simp add: Let_def)
  define t4 where "t4 = hysteresis 3 rs n4 (Some b) t3"
  have 4: "inferredRouterId t4 = Some b \<and> lastRouterSwitchTime t4 = n4"
    using assms 3 unfolding t4_def hysteresis_def
    by (auto simp add: Let_def commitRouter_fields)
  from 1 2 3 4 show ?thesis
    unfolding Let_def t1_def t2_def t3_def t4_def by simp
qed

theorem hysteresis_commits_on_third_reading_witness:
  "''r1'' \<noteq> ''r2'' \<and> inferredRouterId lineTruck \<noteq> Some ''r2''
   \<and> inferredRouterId (hysteresis 3 lineRouters 3 (Some ''r2'')
        (hysteresis 3 lineRouters 2 (Some ''r2'')
          (hysteresis 3 lineRouters 1 (Some ''r1'') lineTruck))) \<noteq> Some ''r2''
   \<and> inferredRouterId (hysteresis 3 lineRouters 4 (Some ''r2'')
        (hysteresis 3 lineRouters 3 (Some ''r2'')
          (hysteresis 3 lineRouters 2 (Some ''r2'')
            (hysteresis 3 lineRouters 1 (Some ''r1'') lineTruck)))) = Some ''r2''"
proof -
  have h: "''r1'' \<noteq> ''r2''" "''r1'' \<noteq> []" "''r2'' \<noteq> []" "inferredRouterId lineTruck \<noteq> Some ''r2''"
    by (simp_all add: lineTruck_def)
  from hysteresis_commits_on_third_reading[OF h, of lineRouters 1 2 3 4] h show ?thesis
    by (simp add: Let_def)
qed

section \<open>Spawning and re-planning\<close>

lemma findPath_line_back:
  "findPath ''C'' ''A'' lineNodes lineEdges = Some None"
  apply (simp add: findPath_def lineNodes_def lineEdges_def mkEdge_def mkNode_def distance_same_py)
  apply (subst findPathLoop.simps)
  apply (simp add: lessInf_def Let_def)
  apply (subst findPathLoop.simps)
  apply simp
  done

lemma spawn_line: "spawnTruck 0 ''A'' ''C'' lineEngine = Some ([], lineSpawned)"
  using findPath_line
  by (simp add: spawnTruck_def lineEngine_def lineSpawned_def lineNodes_def lineEdges_def
      mkNode_def mkEdge_def findEdge_def modifyEdge_def newTruck_def lineTruck_def lineConfig_def)

lemma findPath_line_BC:
  "findPath ''B'' ''C'' (nodes lineDue) (edges lineDue) = Some (Some \<lparr> path = [''bc''], eta = 1 \<rparr>)"
  apply (simp add: findPath_def lineDue_def lineSpawned_def lineEngine_def lineNodes_def mkEdge_def
      mkNode_def distance_same_py)
  apply (subst findPathLoop.simps)
  apply (simp add: lessInf_def relaxEdge_def setAdd_def distance_same_py Let_def)
  apply (subst findPathLoop.simps)
  apply (simp add: lessInf_def relaxEdge_def setAdd_def distance_same_py reconstructPath_def Let_def)
  apply (subst reconstructLoop.simps)
  apply (simp add: findEdge_def)
  apply (subst reconstructLoop.simps)
  apply (simp add: findEdge_def)
  done

lemma rerouteAll_nth:
  "rerouteAll nmap es ts = Some ts' \<Longrightarrow>
     length ts' = length ts \<and> (\<forall>j < length ts. rerouteTruck nmap es (ts ! j) = Some (ts' ! j))"
proof (induction ts arbitrary: ts')
  case Nil
  then show ?case by simp
next
  case (Cons t ts)
  then obtain t' tl' where t: "rerouteTruck nmap es t = Some t'"
    and tl: "rerouteAll nmap es ts = Some tl'" and ts': "ts' = t' # tl'"
    by (auto split: option.splits)
  from Cons.IH[OF tl] t ts' show ?case
    by (auto simp: nth_Cons split: nat.splits)
qed

lemma reroute_lineDue:
  "reroutePhase lineDue =
     Some (lineDue\<lparr> trucks := [lineTruck\<lparr> routePlan := [''ab'', ''bc''], rerouteCount := 1 \<rparr>] \<rparr>)"
proof -
  have due: "rerouteDue lineDue"
    by (simp add: rerouteDue_def jsRem_def lineDue_def lineSpawned_def lineEngine_def lineConfig_def)
  have tr: "trucks lineDue = [lineTruck]"
    by (simp add: lineDue_def lineSpawned_def)
  have fe: "findEdge (edges lineDue) ''ab'' = Some ((mkEdge ''ab'' ''A'' ''B'' 10 10 1)\<lparr> currentLoad := 1 \<rparr>)"
    by (simp add: lineDue_def lineSpawned_def findEdge_def mkEdge_def)
  have "rerouteTruck (nodes lineDue) (edges lineDue) lineTruck =
          Some (lineTruck\<lparr> routePlan := [''ab'', ''bc''], rerouteCount := 1 \<rparr>)"
    using findPath_line_BC fe
    by (simp add: rerouteTruck_def truthy_def lineTruck_def mkEdge_def)
  with due tr show ?thesis
    by (simp add: reroutePhase_def)
qed

lemma findPath_line_BA:
  "findPath ''B'' ''A'' (nodes lineStranded) (edges lineStranded) = Some None"
  apply (simp add: findPath_def lineStranded_def lineDue_def lineSpawned_def lineEngine_def
      lineNodes_def mkEdge_def mkNode_def distance_same_py)
  apply (subst findPathLoop.simps)
  apply (simp add: lessInf_def relaxEdge_def setAdd_def distance_same_py Let_def)
  apply (subst findPathLoop.simps)
  apply (simp add: lessInf_def relaxEdge_def setAdd_def distance_same_py Let_def)
  apply (subst findPathLoop.simps)
  apply simp
  done

lemma reroute_lineStranded:
  "reroutePhase lineStranded = Some lineStranded"
proof -
  have due: "rerouteDue lineStranded"
    by (simp add: rerouteDue_def jsRem_def lineStranded_def lineDue_def lineSpawned_def
        lineEngine_def lineConfig_def)
  have fe: "findEdge (edges lineStranded) ''ab'' =
              Some ((mkEdge ''ab'' ''A'' ''B'' 10 10 1)\<lparr> currentLoad := 1 \<rparr>)"
    by (simp add: lineStranded_def lineDue_def lineSpawned_def findEdge_def mkEdge_def)
  have "rerouteTruck (nodes lineStranded) (edges lineStranded)
          (lineTruck\<lparr> destinationNodeId := Some ''A'' \<rparr>) =
          Some (lineTruck\<lparr> destinationNodeId := Some ''A'' \<rparr>)"
    using findPath_line_BA fe
    by (simp add: rerouteTruck_def truthy_def lineTruck_def mkEdge_def)
  moreover have "trucks lineStranded = [lineTruck\<lparr> destinationNodeId := Some ''A'' \<rparr>]"
    by (simp add: lineStranded_def)
  ultimately show ?thesis using due
    by (simp add: reroutePhase_def lineStranded_def)
qed

text \<open>
  C5. When the re-plan phase runs and returns, the list of trucks keeps its length, and
  for the truck at any position that is moving, has a non-empty destination and a
  non-empty current edge identifier that denotes an edge of the graph: if the planner,
  called from the target node of that edge, returns a path, the plan becomes the current
  edge followed by the path and the reroute counter grows by one, whatever the plan was
  before; if the planner returns no path, the truck is left as it was.
\<close>

theorem reroutePhase_replans:
  assumes "rerouteDue s" and "reroutePhase s = Some s'"
    and "j < length (trucks s)" and "t = trucks s ! j"
    and "state t = Moving"
    and "destinationNodeId t = Some d" and "d \<noteq> []"
    and "currentEdgeId t = Some c" and "c \<noteq> []"
    and "findEdge (edges s) c = Some ce"
  shows "length (trucks s') = length (trucks s)
       \<and> (\<forall>r. findPath (targetId ce) d (nodes s) (edges s) = Some (Some r) \<longrightarrow>
                trucks s' ! j = t\<lparr> routePlan := c # path r, rerouteCount := rerouteCount t + 1 \<rparr>)
       \<and> (findPath (targetId ce) d (nodes s) (edges s) = Some None \<longrightarrow> trucks s' ! j = t)"
proof -
  from assms(1,2) obtain ts' where all: "rerouteAll (nodes s) (edges s) (trucks s) = Some ts'"
    and s': "s' = s\<lparr> trucks := ts' \<rparr>"
    by (auto simp: reroutePhase_def)
  from rerouteAll_nth[OF all] assms(3,4)
  have len: "length ts' = length (trucks s)"
    and one: "rerouteTruck (nodes s) (edges s) t = Some (ts' ! j)"
    by auto
  from one assms(5-10) have
    "(\<forall>r. findPath (targetId ce) d (nodes s) (edges s) = Some (Some r) \<longrightarrow>
          ts' ! j = t\<lparr> routePlan := c # path r, rerouteCount := rerouteCount t + 1 \<rparr>)
     \<and> (findPath (targetId ce) d (nodes s) (edges s) = Some None \<longrightarrow> ts' ! j = t)"
    by (auto simp: rerouteTruck_def truthy_def split: option.splits)
  with len s' show ?thesis by simp
qed

theorem reroutePhase_replans_witness:
  "rerouteDue lineDue
   \<and> reroutePhase lineDue \<noteq> None
   \<and> trucks lineDue ! 0 = lineTruck
   \<and> findPath ''B'' ''C'' (nodes lineDue) (edges lineDue) = Some (Some \<lparr> path = [''bc''], eta = 1 \<rparr>)
   \<and> trucks (the (reroutePhase lineDue)) ! 0 =
       lineTruck\<lparr> routePlan := [''ab'', ''bc''], rerouteCount := 1 \<rparr>
   \<and> rerouteDue lineStranded
   \<and> reroutePhase lineStranded \<noteq> None
   \<and> findPath ''B'' ''A'' (nodes lineStranded) (edges lineStranded) = Some None
   \<and> trucks (the (reroutePhase lineStranded)) ! 0 = trucks lineStranded ! 0"
proof -
  have due: "rerouteDue lineDue" "rerouteDue lineStranded"
    by (simp_all add: rerouteDue_def jsRem_def lineStranded_def lineDue_def lineSpawned_def
        lineEngine_def lineConfig_def)
  have tr: "(0::nat) < length (trucks lineDue)" "lineTruck = trucks lineDue ! 0"
    by (simp_all add: lineDue_def lineSpawned_def)
  have t: "state lineTruck = Moving" "destinationNodeId lineTruck = Some ''C''" "''C'' \<noteq> []"
    "currentEdgeId lineTruck = Some ''ab''" "''ab'' \<noteq> []"
    by (simp_all add: lineTruck_def)
  have fe: "findEdge (edges lineDue) ''ab'' = Some ((mkEdge ''ab'' ''A'' ''B'' 10 10 1)\<lparr> currentLoad := 1 \<rparr>)"
    by (simp add: lineDue_def lineSpawned_def findEdge_def mkEdge_def)
  have tg: "targetId ((mkEdge ''ab'' ''A'' ''B'' 10 10 1)\<lparr> currentLoad := 1 \<rparr>) = ''B''"
    by (simp add: mkEdge_def)
  obtain s' where s': "reroutePhase lineDue = Some s'"
    using reroute_lineDue by blast
  from reroutePhase_replans[OF due(1) s' tr t fe] findPath_line_BC tg
  have 1: "trucks s' ! 0 = lineTruck\<lparr> routePlan := [''ab'', ''bc''], rerouteCount := 1 \<rparr>"
    by (simp add: lineTruck_def)
  let ?u = "lineTruck\<lparr> destinationNodeId := Some ''A'' \<rparr>"
  have tr2: "(0::nat) < length (trucks lineStranded)" "?u = trucks lineStranded ! 0"
    by (simp_all add: lineStranded_def)
  have u: "state ?u = Moving" "destinationNodeId ?u = Some ''A''" "''A'' \<noteq> []"
    "currentEdgeId ?u = Some ''ab''" "''ab'' \<noteq> []"
    by (simp_all add: lineTruck_def)
  have fe2: "findEdge (edges lineStranded) ''ab'' =
               Some ((mkEdge ''ab'' ''A'' ''B'' 10 10 1)\<lparr> currentLoad := 1 \<rparr>)"
    using fe by (simp add: lineStranded_def)
  obtain s2 where s2: "reroutePhase lineStranded = Some s2"
    using reroute_lineStranded by blast
  from reroutePhase_replans[OF due(2) s2 tr2 u fe2] findPath_line_BA tg
  have 2: "trucks s2 ! 0 = trucks lineStranded ! 0"
    by (simp add: lineStranded_def)
  from 1 2 due s' s2 tr findPath_line_BC findPath_line_BA show ?thesis
    by simp
qed

text \<open>
  C8, as the code has it. When the start node is unknown, the destination node is unknown,
  the planner returns no path or the planner returns an empty path, \<open>spawnTruck\<close> returns
  normally and the engine is exactly the engine before the call. The call returns no
  value; a warning is written to the console unless the start node is unknown, in which
  case nothing at all is written.
\<close>

theorem spawnTruck_failure_leaves_engine:
  assumes "nodes s a = None \<or> nodes s b = None \<or> findPath a b (nodes s) (edges s) = Some None
           \<or> (\<exists>r. findPath a b (nodes s) (edges s) = Some (Some r) \<and> path r = [])"
  shows "spawnTruck rnd a b s =
           Some (if nodes s a = None then [] else [''No path found for new truck''], s)"
proof (cases "nodes s a")
  case None
  then show ?thesis by (simp add: spawnTruck_def)
next
  case (Some sn)
  show ?thesis
  proof (cases "nodes s b")
    case None
    with Some have "findPath a b (nodes s) (edges s) = Some None"
      by (simp add: findPath_def)
    with Some show ?thesis by (simp add: spawnTruck_def)
  next
    case (Some en)
    with assms \<open>nodes s a = Some sn\<close> show ?thesis
      by (auto simp: spawnTruck_def)
  qed
qed

theorem spawnTruck_failure_leaves_engine_witness:
  "nodes lineEngine ''X'' = None
   \<and> spawnTruck 0 ''X'' ''C'' lineEngine = Some ([], lineEngine)
   \<and> nodes lineEngine ''A'' \<noteq> None
   \<and> spawnTruck 0 ''A'' ''X'' lineEngine = Some ([''No path found for new truck''], lineEngine)
   \<and> findPath ''C'' ''A'' (nodes lineEngine) (edges lineEngine) = Some None
   \<and> spawnTruck 0 ''C'' ''A'' lineEngine = Some ([''No path found for new truck''], lineEngine)"
proof -
  have x: "nodes lineEngine ''X'' = None" and a: "nodes lineEngine ''A'' \<noteq> None"
    and c: "nodes lineEngine ''C'' \<noteq> None"
    by (simp_all add: lineEngine_def lineNodes_def)
  have nopath: "findPath ''C'' ''A'' (nodes lineEngine) (edges lineEngine) = Some None"
    using findPath_line_back by (simp add: lineEngine_def)
  from spawnTruck_failure_leaves_engine[of lineEngine "''X''" "''C''" 0]
    spawnTruck_failure_leaves_engine[of lineEngine "''A''" "''X''" 0]
    spawnTruck_failure_leaves_engine[of lineEngine "''C''" "''A''" 0]
    x a c nopath
  show ?thesis by simp
qed

text \<open>
  C8, as stated, fails on the report: for an unknown start node the call writes no
  warning and hands back what a successful call hands back, namely nothing.
\<close>

theorem spawnTruck_unknown_start_silent:
  "spawnTruck 0 ''X'' ''C'' lineEngine = Some ([], lineEngine)
   \<and> map_option fst (spawnTruck 0 ''A'' ''C'' lineEngine) = Some []
   \<and> trucks lineSpawned = [lineTruck]"
  using spawn_line
  by (simp add: spawnTruck_def lineEngine_def lineNodes_def lineSpawned_def)

section \<open>The tick\<close>

lemma updateFirst_map_static:
  "(\<And>v. g (f v) = g v) \<Longrightarrow> map g (updateFirst P f vs) = map g vs"
  by (induction vs) auto

lemma leaveEdge_frame:
  "config (leaveEdge ce s) = config s" "nodes (leaveEdge ce s) = nodes s"
  "routers (leaveEdge ce s) = routers s" "time (leaveEdge ce s) = time s"
  "map edge_id (edges (leaveEdge ce s)) = map edge_id (edges s)"
  "map isClosed (edges (leaveEdge ce s)) = map isClosed (edges s)"
  by (simp_all add: leaveEdge_def modifyEdge_def updateFirst_map_static)

lemma enterNext_frame:
  assumes "enterNext t s = (t', s')"
  shows "config s' = config s \<and> nodes s' = nodes s \<and> routers s' = routers s \<and> time s' = time s
       \<and> map edge_id (edges s') = map edge_id (edges s)"
  using assms
  by (auto simp: enterNext_def modifyEdge_def updateFirst_map_static
      split: list.splits option.splits if_splits)

lemma moveTruck_frame:
  assumes "moveTruck t s = (t', s')"
  shows "config s' = config s \<and> nodes s' = nodes s \<and> routers s' = routers s \<and> time s' = time s
       \<and> map edge_id (edges s') = map edge_id (edges s)"
proof (cases "state t = Moving")
  case False
  with assms show ?thesis by (simp add: moveTruck_def)
next
  case True
  show ?thesis
  proof (cases "lookupEdge (edges s) (currentEdgeId t)")
    case None
    with True assms show ?thesis by (simp add: moveTruck_def)
  next
    case (Some ce)
    show ?thesis
    proof (cases "edge_length ce \<le> distanceAlongEdge (advanceTruck s ce t)")
      case False
      with True Some assms show ?thesis by (simp add: moveTruck_def Let_def)
    next
      case fin: True
      with True Some assms have
        "enterNext (shiftPlan ((advanceTruck s ce t)\<lparr> distanceAlongEdge := 0 \<rparr>)) (leaveEdge ce s) = (t', s')"
        by (simp add: moveTruck_def Let_def)
      from enterNext_frame[OF this] show ?thesis by (simp add: leaveEdge_frame)
    qed
  qed
qed

lemma moveTruck_idle:
  "state t \<noteq> Moving \<Longrightarrow> moveTruck t s = (t, s)"
  by (simp add: moveTruck_def)

lemma moveTrucks_frame:
  assumes "moveTrucks ts s = (ts', s')"
  shows "config s' = config s \<and> nodes s' = nodes s \<and> routers s' = routers s \<and> time s' = time s
       \<and> map edge_id (edges s') = map edge_id (edges s)
       \<and> list_all2 (\<lambda>t t'. state t \<noteq> Moving \<longrightarrow> t' = t) ts ts'"
  using assms
proof (induction ts arbitrary: s ts' s')
  case Nil
  then show ?case by simp
next
  case (Cons t ts)
  obtain t1 s1 where one: "moveTruck t s = (t1, s1)" by (cases "moveTruck t s") auto
  obtain ts2 s2 where rest: "moveTrucks ts s1 = (ts2, s2)" by (cases "moveTrucks ts s1") auto
  from Cons.prems one rest have eq: "ts' = t1 # ts2" "s' = s2" by auto
  have "state t \<noteq> Moving \<longrightarrow> t1 = t"
    using one by (auto simp: moveTruck_idle)
  with Cons.IH[OF rest] moveTruck_frame[OF one] eq show ?case by simp
qed

lemma afterMotion_frame:
  "config (afterMotion s) = config s" "nodes (afterMotion s) = nodes s"
  "routers (afterMotion s) = routers s" "time (afterMotion s) = time s + dt (config s)"
  "map edge_id (edges (afterMotion s)) = map edge_id (edges s)"
proof -
  let ?s0 = "s\<lparr> time := time s + dt (config s) \<rparr>"
  obtain ts' s' where m: "moveTrucks (trucks ?s0) ?s0 = (ts', s')"
    by (cases "moveTrucks (trucks ?s0) ?s0") auto
  then have a: "afterMotion s = s'\<lparr> trucks := filter (\<lambda>t. state t \<noteq> Finished) ts' \<rparr>"
    by (simp add: afterMotion_def motionPhase_def)
  from moveTrucks_frame[OF m] a show
    "config (afterMotion s) = config s" "nodes (afterMotion s) = nodes s"
    "routers (afterMotion s) = routers s" "time (afterMotion s) = time s + dt (config s)"
    "map edge_id (edges (afterMotion s)) = map edge_id (edges s)"
    by simp_all
qed

lemma localizationPhase_frame:
  "config (localizationPhase noise s) = config s" "nodes (localizationPhase noise s) = nodes s"
  "edges (localizationPhase noise s) = edges s" "time (localizationPhase noise s) = time s"
  "routers (localizationPhase noise s) = routers s"
  by (simp_all add: localizationPhase_def)

lemma congestionPhase_frame:
  "config (congestionPhase s) = config s" "nodes (congestionPhase s) = nodes s"
  "trucks (congestionPhase s) = trucks s" "time (congestionPhase s) = time s"
  "routers (congestionPhase s) = routers s"
  by (simp_all add: congestionPhase_def)

lemma reroutePhase_frame:
  assumes "reroutePhase s = Some s'"
  shows "config s' = config s \<and> nodes s' = nodes s \<and> edges s' = edges s \<and> time s' = time s
       \<and> routers s' = routers s"
  using assms by (auto simp: reroutePhase_def split: if_splits)

lemma tick_edges:
  assumes "tick noise s = Some s'"
  shows "edges s' = map (\<lambda>e. e\<lparr> currentWeight := congestionWeight (config s) e \<rparr>) (edges (afterMotion s))"
proof -
  from assms have "edges s' = edges (congestionPhase (localizationPhase noise (afterMotion s)))"
    unfolding tick_def by (auto dest: reroutePhase_frame)
  then show ?thesis
    by (simp add: congestionPhase_def localizationPhase_frame afterMotion_frame)
qed

lemma afterCongestion_edges:
  "edges (afterCongestion noise s) =
     map (\<lambda>e. e\<lparr> currentWeight := congestionWeight (config s) e \<rparr>) (edges (afterMotion s))"
  by (simp add: afterCongestion_def congestionPhase_def localizationPhase_frame afterMotion_frame)

text \<open>
  C4. In every tick, whether or not its re-plan phase returns, the congestion phase leaves
  the list of edges of the motion phase with only the weights rewritten, and the weight
  of every edge is \<open>T0 * (1 + alpha * (n / C)^beta)\<close> for its free-flow time \<open>T0\<close>, its
  capacity \<open>C\<close> and its load \<open>n\<close> after the motion phase of that tick, wherever \<open>C\<close> is
  not zero and the power is a finite number. The re-plan phase is all that remains of
  the tick and does not touch the edges: a tick that returns has exactly these edges.
\<close>

theorem tick_congestion_weights:
  "length (edges (afterCongestion noise s)) = length (edges (afterMotion s))
   \<and> (\<forall>k < length (edges (afterMotion s)).
        let e0 = edges (afterMotion s) ! k; e1 = edges (afterCongestion noise s) ! k in
          e1 = e0\<lparr> currentWeight := currentWeight e1 \<rparr>
        \<and> (capacity e0 \<noteq> 0 \<and> powFinite (currentLoad e0 / capacity e0) (beta (config s)) \<longrightarrow>
             currentWeight e1 =
               baseTravelTime e0 *
                 (1 + alpha (config s) * math_pow (currentLoad e0 / capacity e0) (beta (config s)))))
   \<and> tick noise s = reroutePhase (afterCongestion noise s)
   \<and> (\<forall>s'. tick noise s = Some s' \<longrightarrow> edges s' = edges (afterCongestion noise s))"
proof -
  have "tick noise s = reroutePhase (afterCongestion noise s)"
    by (simp add: tick_def afterCongestion_def)
  moreover have "\<forall>s'. tick noise s = Some s' \<longrightarrow> edges s' = edges (afterCongestion noise s)"
    by (simp add: tick_edges afterCongestion_edges)
  ultimately show ?thesis
    by (simp add: afterCongestion_edges Let_def congestionWeight_def)
qed

lemma tick_no_reroute:
  assumes "\<not> rerouteDue (s\<lparr> time := time s + dt (config s) \<rparr>)"
  shows "tick noise s = Some (congestionPhase (localizationPhase noise (afterMotion s)))"
proof -
  let ?s3 = "congestionPhase (localizationPhase noise (afterMotion s))"
  have "rerouteDue ?s3 = rerouteDue (s\<lparr> time := time s + dt (config s) \<rparr>)"
    by (simp add: rerouteDue_def congestionPhase_frame localizationPhase_frame afterMotion_frame
        split: option.split)
  with assms show ?thesis by (simp add: tick_def reroutePhase_def)
qed

lemma afterMotion_lineSpawned: "afterMotion lineSpawned = lineMoved"
  by (simp add: afterMotion_def motionPhase_def moveTruck_def lookupEdge_def findEdge_def
      advanceTruck_def shiftPlan_def leaveEdge_def enterNext_def modifyEdge_def
      getPointOnSegment_def Let_def
      lineSpawned_def lineMoved_def lineEngine_def lineConfig_def lineNodes_def lineTruck_def
      mkEdge_def mkNode_def)

lemma tick_lineSpawned: "tick quietTick lineSpawned \<noteq> None"
proof -
  have "\<not> rerouteDue (lineSpawned\<lparr> time := time lineSpawned + dt (config lineSpawned) \<rparr>)"
    by (simp add: rerouteDue_def jsRem_def lineSpawned_def lineEngine_def lineConfig_def)
  from tick_no_reroute[OF this] show ?thesis by simp
qed

theorem tick_congestion_weights_witness:
  "map capacity (edges (afterMotion lineSpawned)) = [2, 2]
   \<and> map currentLoad (edges (afterMotion lineSpawned)) = [0, 1]
   \<and> beta (config lineSpawned) = 2
   \<and> powFinite (0 / 2) 2 \<and> powFinite (1 / 2) 2
   \<and> map currentWeight (edges (afterCongestion quietTick lineSpawned)) = [1, 5 / 4]
   \<and> tick quietTick lineSpawned \<noteq> None
   \<and> map currentWeight (edges (the (tick quietTick lineSpawned))) = [1, 5 / 4]"
proof -
  obtain s' where s': "tick quietTick lineSpawned = Some s'"
    using tick_lineSpawned by blast
  have e: "edges (afterMotion lineSpawned) =
             [mkEdge ''ab'' ''A'' ''B'' 10 10 1, (mkEdge ''bc'' ''B'' ''C'' 10 10 1)\<lparr> currentLoad := 1 \<rparr>]"
    by (simp add: afterMotion_lineSpawned lineMoved_def)
  have c: "alpha (config lineSpawned) = 1" "beta (config lineSpawned) = 2"
    by (simp_all add: lineSpawned_def lineEngine_def lineConfig_def)
  have p: "powFinite (0 / 2) 2" "powFinite (1 / 2) 2"
    by (simp_all add: powFinite_def)
  let ?s3 = "afterCongestion quietTick lineSpawned"
  from tick_congestion_weights[of quietTick lineSpawned]
  have len: "length (edges ?s3) = 2"
    and w: "\<forall>k<2. let e0 = edges (afterMotion lineSpawned) ! k; e1 = edges ?s3 ! k in
              e1 = e0\<lparr> currentWeight := currentWeight e1 \<rparr>
            \<and> (capacity e0 \<noteq> 0 \<and> powFinite (currentLoad e0 / capacity e0) (beta (config lineSpawned)) \<longrightarrow>
                 currentWeight e1 =
                   baseTravelTime e0 *
                     (1 + alpha (config lineSpawned) * math_pow (currentLoad e0 / capacity e0) (beta (config lineSpawned))))"
    and fin: "\<forall>s'. tick quietTick lineSpawned = Some s' \<longrightarrow> edges s' = edges ?s3"
    by (simp_all add: e)
  from w[rule_format, of 0] w[rule_format, of 1] p
  have "currentWeight (edges ?s3 ! 0) = 1" "currentWeight (edges ?s3 ! 1) = 5 / 4"
    by (simp_all add: e c Let_def mkEdge_def math_pow_two power2_eq_square)
  with len have "map currentWeight (edges ?s3) = [1, 5 / 4]"
    by (cases "edges ?s3"; cases "tl (edges ?s3)") auto
  with s' e c p fin show ?thesis by (simp add: mkEdge_def)
qed

section \<open>Edge capacity\<close>

lemma enterNext_capacity:
  assumes "enterNext t s = (t', s')"
  shows "map capacity (edges s') = map capacity (edges s)"
  using assms
  by (auto simp: enterNext_def modifyEdge_def updateFirst_map_static
      split: list.splits option.splits if_splits)

lemma moveTruck_capacity:
  assumes "moveTruck t s = (t', s')"
  shows "map capacity (edges s') = map capacity (edges s)"
proof (cases "state t = Moving")
  case False
  with assms show ?thesis by (simp add: moveTruck_def)
next
  case True
  show ?thesis
  proof (cases "lookupEdge (edges s) (currentEdgeId t)")
    case None
    with True assms show ?thesis by (auto simp: moveTruck_def)
  next
    case (Some ce)
    show ?thesis
    proof (cases "edge_length ce \<le> distanceAlongEdge (advanceTruck s ce t)")
      case False
      with True Some assms show ?thesis by (auto simp: moveTruck_def Let_def)
    next
      case fin: True
      with True Some assms have
        "enterNext (shiftPlan ((advanceTruck s ce t)\<lparr> distanceAlongEdge := 0 \<rparr>)) (leaveEdge ce s) = (t', s')"
        by (simp add: moveTruck_def Let_def)
      from enterNext_capacity[OF this] show ?thesis
        by (simp add: leaveEdge_def modifyEdge_def updateFirst_map_static)
    qed
  qed
qed

lemma moveTrucks_capacity:
  assumes "moveTrucks ts s = (ts', s')"
  shows "map capacity (edges s') = map capacity (edges s)"
  using assms
proof (induction ts arbitrary: s ts' s')
  case Nil
  then show ?case by simp
next
  case (Cons t ts)
  obtain t1 s1 where one: "moveTruck t s = (t1, s1)" by (cases "moveTruck t s") auto
  obtain ts2 s2 where rest: "moveTrucks ts s1 = (ts2, s2)" by (cases "moveTrucks ts s1") auto
  from Cons.prems one rest have "s' = s2" by auto
  with Cons.IH[OF rest] moveTruck_capacity[OF one] show ?case by simp
qed

lemma afterCongestion_capacity:
  "map capacity (edges (afterCongestion noise s)) = map capacity (edges s)"
proof -
  let ?s0 = "s\<lparr> time := time s + dt (config s) \<rparr>"
  obtain ts' s' where m: "moveTrucks (trucks ?s0) ?s0 = (ts', s')"
    by (cases "moveTrucks (trucks ?s0) ?s0") auto
  then have "edges (afterMotion s) = edges s'"
    by (simp add: afterMotion_def motionPhase_def)
  with moveTrucks_capacity[OF m] show ?thesis
    by (simp add: afterCongestion_edges comp_def)
qed

text \<open>
  C9, as the code has it. \<open>addEdge\<close> stores the edge it is given without looking at it:
  after the call every stored edge has a capacity of at least 1 exactly when that held
  before and the new edge has a capacity of at least 1. Nothing in a tick removes or
  repairs an edge: when the congestion phase of the next tick has run, the list of edges
  still holds every stored edge with its capacity, the new one included.
\<close>

theorem addEdge_capacity_unchecked:
  "((\<forall>e' \<in> set (edges (addEdge e s)). 1 \<le> capacity e')
      \<longleftrightarrow> (\<forall>e' \<in> set (edges s). 1 \<le> capacity e') \<and> 1 \<le> capacity e)
   \<and> map capacity (edges (afterCongestion noise (addEdge e s))) = map capacity (edges s) @ [capacity e]"
  by (auto simp: afterCongestion_capacity addEdge_def)

theorem addEdge_capacity_unchecked_witness:
  "map capacity (edges lineEngine) = [2, 2]
   \<and> capacity (mkEdge ''ac'' ''A'' ''C'' 20 10 2) = 2
   \<and> list_all (\<lambda>e'. 1 \<le> capacity e') (edges (addEdge (mkEdge ''ac'' ''A'' ''C'' 20 10 2) lineEngine))
   \<and> map capacity (edges (afterCongestion quietTick (addEdge zeroCapEdge lineEngine))) = [2, 2, 0]"
proof -
  have z: "map capacity (edges (afterCongestion quietTick (addEdge zeroCapEdge lineEngine))) = [2, 2, 0]"
    using addEdge_capacity_unchecked[of zeroCapEdge lineEngine quietTick]
    by (simp add: zeroCapEdge_def lineEngine_def lineEdges_def mkEdge_def)
  have c: "map capacity (edges lineEngine) = [2, 2]"
    by (simp add: lineEngine_def lineEdges_def mkEdge_def)
  have "\<forall>e' \<in> set (edges lineEngine). 1 \<le> capacity e'"
    by (simp add: lineEngine_def lineEdges_def mkEdge_def)
  moreover have n: "capacity (mkEdge ''ac'' ''A'' ''C'' 20 10 2) = 2"
    by (simp add: mkEdge_def)
  ultimately have "\<forall>e' \<in> set (edges (addEdge (mkEdge ''ac'' ''A'' ''C'' 20 10 2) lineEngine)). 1 \<le> capacity e'"
    using addEdge_capacity_unchecked[of "mkEdge ''ac'' ''A'' ''C'' 20 10 2" lineEngine] by simp
  with c n z show ?thesis
    by (simp add: list_all_iff)
qed

text \<open>
  C9, as stated, fails: \<open>addEdge\<close> admits an edge of capacity 0, and the congestion phase
  then computes a weight for it with \<open>C = 0\<close>.
\<close>

theorem addEdge_admits_zero_capacity:
  "capacity zeroCapEdge = 0
   \<and> edges (addEdge zeroCapEdge lineEngine) = lineEdges @ [zeroCapEdge]
   \<and> map capacity (edges (congestionPhase (addEdge zeroCapEdge lineEngine))) = [2, 2, 0]"
  by (simp add: zeroCapEdge_def addEdge_def congestionPhase_def lineEngine_def lineEdges_def
      mkEdge_def)

section \<open>Waiting trucks\<close>

lemma state_frozen: "state (frozen t) = state t"
  by (simp add: frozen_def)

lemma waitingView_all2:
  assumes "list_all2 (\<lambda>t t'. state t = Waiting \<longrightarrow> frozen t' = frozen t) ts ts'"
  shows "subseq (waitingView ts) (waitingView ts')"
  using assms
proof (induction rule: list_all2_induct)
  case Nil
  then show ?case by (simp add: waitingView_def)
next
  case (Cons t ts t' ts')
  show ?case
  proof (cases "state t = Waiting")
    case True
    with Cons have f: "frozen t' = frozen t" by simp
    then have "state t' = state t" using state_frozen by metis
    with True f Cons.IH show ?thesis by (simp add: waitingView_def)
  next
    case False
    with Cons.IH show ?thesis
      by (auto simp: waitingView_def intro: list_emb_Cons)
  qed
qed

lemma waitingView_filter:
  "waitingView (filter (\<lambda>t. state t \<noteq> Finished) ts) = waitingView ts"
  unfolding waitingView_def filter_filter
  by (rule arg_cong[where f="map frozen"], rule filter_cong) auto

lemma frozen_commitRouter: "frozen (commitRouter rs now c t) = frozen t"
  by (simp add: commitRouter_def frozen_def Let_def split: option.split list.split)

lemma frozen_hysteresis: "frozen (hysteresis n rs now c t) = frozen t"
  by (simp add: hysteresis_def Let_def frozen_commitRouter split: option.split)
     (simp add: frozen_def)

lemma frozen_localizeTruck: "frozen (localizeTruck s zs t) = frozen t"
  by (simp add: localizeTruck_def frozen_hysteresis)

lemma list_all2_enumerate_map:
  assumes "\<And>j t. R t (f j t)"
  shows "list_all2 R ts (map (\<lambda>(j, t). f j t) (enumerate n ts))"
  using assms by (induction ts arbitrary: n) auto

lemma rerouteTruck_idle:
  "state t \<noteq> Moving \<Longrightarrow> rerouteTruck nmap es t = Some t"
  by (simp add: rerouteTruck_def)

lemma rerouteAll_all2:
  "rerouteAll nmap es ts = Some ts' \<Longrightarrow> list_all2 (\<lambda>t t'. state t \<noteq> Moving \<longrightarrow> t' = t) ts ts'"
proof (induction ts arbitrary: ts')
  case Nil
  then show ?case by simp
next
  case (Cons t ts)
  then obtain t' tl' where t: "rerouteTruck nmap es t = Some t'"
    and tl: "rerouteAll nmap es ts = Some tl'" and ts': "ts' = t' # tl'"
    by (auto split: option.splits)
  from t have "state t \<noteq> Moving \<longrightarrow> t' = t" by (auto simp: rerouteTruck_idle)
  with Cons.IH[OF tl] ts' show ?case by simp
qed

lemma waitingView_motion: "subseq (waitingView (trucks s)) (waitingView (trucks (afterMotion s)))"
proof -
  let ?s0 = "s\<lparr> time := time s + dt (config s) \<rparr>"
  obtain ts' s' where m: "moveTrucks (trucks ?s0) ?s0 = (ts', s')"
    by (cases "moveTrucks (trucks ?s0) ?s0") auto
  then have a: "trucks (afterMotion s) = filter (\<lambda>t. state t \<noteq> Finished) ts'"
    by (simp add: afterMotion_def motionPhase_def)
  from moveTrucks_frame[OF m]
  have "list_all2 (\<lambda>t t'. state t \<noteq> Moving \<longrightarrow> t' = t) (trucks s) ts'" by simp
  then have "list_all2 (\<lambda>t t'. state t = Waiting \<longrightarrow> frozen t' = frozen t) (trucks s) ts'"
    by (rule list_all2_mono) auto
  from waitingView_all2[OF this] a show ?thesis by (simp add: waitingView_filter)
qed

lemma waitingView_localization:
  "subseq (waitingView (trucks s)) (waitingView (trucks (localizationPhase noise s)))"
  unfolding localizationPhase_def
  by (simp, rule waitingView_all2, rule list_all2_enumerate_map) (simp add: frozen_localizeTruck)

lemma waitingView_reroute:
  assumes "reroutePhase s = Some s'"
  shows "subseq (waitingView (trucks s)) (waitingView (trucks s'))"
proof (cases "rerouteDue s")
  case False
  with assms show ?thesis by (simp add: reroutePhase_def)
next
  case True
  with assms obtain ts' where all: "rerouteAll (nodes s) (edges s) (trucks s) = Some ts'"
    and s': "s' = s\<lparr> trucks := ts' \<rparr>"
    by (auto simp: reroutePhase_def)
  from rerouteAll_all2[OF all]
  have "list_all2 (\<lambda>t t'. state t = Waiting \<longrightarrow> frozen t' = frozen t) (trucks s) ts'"
    by (rule list_all2_mono) auto
  from waitingView_all2[OF this] s' show ?thesis by simp
qed

lemma waitingView_tick:
  assumes "tick noise s = Some s'"
  shows "subseq (waitingView (trucks s)) (waitingView (trucks s'))"
proof -
  let ?s1 = "afterMotion s"
  let ?s2 = "localizationPhase noise ?s1"
  let ?s3 = "congestionPhase ?s2"
  have "subseq (waitingView (trucks s)) (waitingView (trucks ?s1))"
    by (rule waitingView_motion)
  also have "subseq (waitingView (trucks ?s1)) (waitingView (trucks ?s2))"
    by (rule waitingView_localization)
  also have "trucks ?s2 = trucks ?s3"
    by (simp add: congestionPhase_frame)
  also have "subseq (waitingView (trucks ?s3)) (waitingView (trucks s'))"
    using assms by (intro waitingView_reroute) (simp add: tick_def)
  finally show ?thesis .
qed

lemma spawnTruck_cases:
  assumes "spawnTruck rnd a b s = Some (w, s')"
  obtains (unchanged) "s' = s"
  | (created) sn r fe where
      "nodes s a = Some sn" "findPath a b (nodes s) (edges s) = Some (Some r)"
      "findEdge (edges s) (hd (path r)) = Some fe" "path r \<noteq> []"
      "s' = s\<lparr> nextTruckId := Suc (nextTruckId s),
                edges := modifyEdge (edge_id fe)
                           (\<lambda>e. e\<lparr> currentLoad := currentLoad e + 1 \<rparr>) (edges s),
                trucks := trucks s @ [newTruck s sn fe (path r) b rnd] \<rparr>"
proof (cases "nodes s a")
  case None
  with assms have "s' = s" by (simp add: spawnTruck_def)
  then show ?thesis by (rule unchanged)
next
  case sn: (Some sn)
  show ?thesis
  proof (cases "findPath a b (nodes s) (edges s)")
    case None
    with sn assms show ?thesis by (simp add: spawnTruck_def)
  next
    case res: (Some res)
    show ?thesis
    proof (cases res)
      case None
      with sn res assms have "s' = s" by (simp add: spawnTruck_def)
      then show ?thesis by (rule unchanged)
    next
      case r: (Some r)
      show ?thesis
      proof (cases "path r")
        case Nil
        with sn res r assms have "s' = s" by (simp add: spawnTruck_def)
        then show ?thesis by (rule unchanged)
      next
        case (Cons i rest)
        show ?thesis
        proof (cases "findEdge (edges s) i")
          case None
          with sn res r Cons assms have "s' = s" by (simp add: spawnTruck_def)
          then show ?thesis by (rule unchanged)
        next
          case (Some fe)
          with sn res r Cons assms have
            "s' = s\<lparr> nextTruckId := Suc (nextTruckId s),
                        edges := modifyEdge (edge_id fe)
                                   (\<lambda>e. e\<lparr> currentLoad := currentLoad e + 1 \<rparr>) (edges s),
                        trucks := trucks s @ [newTruck s sn fe (path r) b rnd] \<rparr>"
            by (simp add: spawnTruck_def)
          moreover from Cons Some have "findEdge (edges s) (hd (path r)) = Some fe" "path r \<noteq> []"
            by simp_all
          ultimately show ?thesis using sn res r by (intro created[of sn r fe]) simp_all
        qed
      qed
    qed
  qed
qed

lemma waitingView_spawn:
  assumes "spawnTruck rnd a b s = Some (w, s')"
  shows "subseq (waitingView (trucks s)) (waitingView (trucks s'))"
  using assms
proof (cases rule: spawnTruck_cases)
  case unchanged
  then show ?thesis by simp
next
  case (created sn r fe)
  have "state (newTruck s sn fe (path r) b rnd) = Moving"
    by (simp add: newTruck_def)
  with created(5) show ?thesis
    by (simp add: waitingView_def)
qed

lemma waitingView_applyOp:
  assumes "applyOp ope s = Some s'"
  shows "subseq (waitingView (trucks s)) (waitingView (trucks s'))"
proof (cases ope)
  case (OpTick noise)
  with assms show ?thesis by (simp add: waitingView_tick)
next
  case (OpSpawnTruck rnd a b)
  with assms obtain w where "spawnTruck rnd a b s = Some (w, s')" by auto
  then show ?thesis by (rule waitingView_spawn)
qed (use assms in \<open>auto simp: addNode_def removeNode_def addEdge_def removeEdge_def addRouter_def
      removeRouter_def toggleClosure_def Let_def\<close>)

lemma rerouteAll_idle:
  "\<forall>t \<in> set ts. state t \<noteq> Moving \<Longrightarrow> rerouteAll nmap es ts = Some ts"
  by (induction ts) (simp_all add: rerouteTruck_idle)

lemma state_localizeTruck: "state (localizeTruck s zs t) = state t"
  using frozen_localizeTruck[of s zs t] state_frozen by metis

lemma tick_returns_without_moving:
  assumes "\<forall>t \<in> set (trucks (afterMotion s)). state t \<noteq> Moving"
  shows "tick noise s \<noteq> None"
proof -
  let ?s2 = "localizationPhase noise (afterMotion s)"
  have "\<forall>t \<in> set (trucks ?s2). state t \<noteq> Moving"
    using assms by (auto simp: localizationPhase_def state_localizeTruck in_set_enumerate_eq)
  then have "rerouteAll (nodes (congestionPhase ?s2)) (edges (congestionPhase ?s2))
               (trucks (congestionPhase ?s2)) = Some (trucks (congestionPhase ?s2))"
    by (intro rerouteAll_idle) (simp add: congestionPhase_frame)
  then show ?thesis by (simp add: tick_def reroutePhase_def)
qed

text \<open>
  C10. Over any sequence of ticks, live edits, closure toggles and spawns that returns,
  the trucks that were waiting at the start are still in the list of trucks at the end,
  in the same order and still waiting, each with the identifier, position, current edge,
  progress, speed, plan, destination, totals and reroute count it had: only the
  localization fields of a waiting truck can change.
\<close>

theorem waiting_trucks_stay:
  assumes "runOps ops s = Some s'"
  shows "subseq (waitingView (trucks s)) (waitingView (trucks s'))"
  using assms
proof (induction ops arbitrary: s)
  case Nil
  then show ?case by simp
next
  case (Cons ope ops)
  then obtain s1 where one: "applyOp ope s = Some s1" and rest: "runOps ops s1 = Some s'"
    by (auto split: option.splits)
  from waitingView_applyOp[OF one] Cons.IH[OF rest] show ?case
    by (rule subseq_order.trans)
qed


theorem waiting_trucks_stay_witness:
  "runOps [OpToggleClosure ''bc'', OpTick quietTick] lineBlocked \<noteq> None
   \<and> map isClosed (edges (toggleClosure ''bc'' lineBlocked)) = [False, False]
   \<and> waitingView (trucks lineBlocked) = [frozen (hd (trucks lineBlocked))]
   \<and> subseq [frozen (hd (trucks lineBlocked))]
        (waitingView (trucks (the (runOps [OpToggleClosure ''bc'', OpTick quietTick] lineBlocked))))"
proof -
  let ?s = "toggleClosure ''bc'' lineBlocked"
  have am: "trucks (afterMotion ?s) = trucks lineBlocked"
    by (simp add: afterMotion_def motionPhase_def moveTruck_def toggleClosure_def
        lineBlocked_def lineEngine_def lineTruck_def)
  have w: "waitingView (trucks lineBlocked) = [frozen (hd (trucks lineBlocked))]"
    by (simp add: waitingView_def lineBlocked_def lineEngine_def lineTruck_def)
  have "\<forall>t \<in> set (trucks (afterMotion ?s)). state t \<noteq> Moving"
    unfolding am by (simp add: lineBlocked_def lineEngine_def lineTruck_def)
  from tick_returns_without_moving[OF this, of quietTick] obtain s' where
    "tick quietTick ?s = Some s'"
    by blast
  then have run: "runOps [OpToggleClosure ''bc'', OpTick quietTick] lineBlocked = Some s'"
    by simp
  have o: "map isClosed (edges ?s) = [False, False]"
    by (simp add: toggleClosure_def modifyEdge_def lineBlocked_def lineEngine_def mkEdge_def)
  from waiting_trucks_stay[OF run] run w o show ?thesis by simp
qed

section \<open>Edge loads\<close>

lemma updateFirst_distinct:
  assumes "distinct (map g vs)"
  shows "updateFirst (\<lambda>v. g v = i) f vs = map (\<lambda>v. if g v = i then f v else v) vs"
  using assms
proof (induction vs)
  case Nil
  then show ?case by simp
next
  case (Cons v vs)
  show ?case
  proof (cases "g v = i")
    case True
    with Cons.prems have "\<forall>u \<in> set vs. g u \<noteq> i" by (fastforce simp: image_iff)
    then have "map (\<lambda>v. if g v = i then f v else v) vs = vs"
      by (induction vs) auto
    with True show ?thesis by simp
  next
    case False
    with Cons show ?thesis by simp
  qed
qed

lemma movingOn_append: "movingOn (xs @ ys) i = movingOn xs i + movingOn ys i"
  by (simp add: movingOn_def)

lemma movingOn_Cons:
  "movingOn (t # ts) i = (if state t = Moving \<and> currentEdgeId t = Some i then 1 else 0) + movingOn ts i"
  by (simp add: movingOn_def)

lemma loadsCountMoving_iff:
  "loadsCountMoving es ts \<longleftrightarrow> (\<forall>e \<in> set es. currentLoad e = real (movingOn ts (edge_id e)))"
  by (simp add: loadsCountMoving_def list_all_iff)

lemma leaveEdge_loads:
  assumes "distinct (map edge_id (edges s))"
    and "loadsCountMoving (edges s) (pre @ t # post)"
    and "state t = Moving" and "currentEdgeId t = Some (edge_id ce)"
  shows "loadsCountMoving (edges (leaveEdge ce s)) (pre @ post)"
  using assms
  by (auto simp: leaveEdge_def modifyEdge_def updateFirst_distinct loadsCountMoving_iff
      movingOn_append movingOn_Cons)

lemma enterNext_loads:
  assumes "distinct (map edge_id (edges s))"
    and "loadsCountMoving (edges s) (pre @ post)"
    and "state t = Moving"
    and "enterNext t s = (t', s')"
  shows "loadsCountMoving (edges s') (pre @ t' # post)"
proof (cases "routePlan t")
  case Nil
  with assms show ?thesis
    by (auto simp: enterNext_def loadsCountMoving_iff movingOn_append movingOn_Cons)
next
  case (Cons nid rest)
  show ?thesis
  proof (cases "findEdge (edges s) nid")
    case None
    with Cons assms show ?thesis
      by (auto simp: enterNext_def loadsCountMoving_iff movingOn_append movingOn_Cons)
  next
    case (Some ne)
    show ?thesis
    proof (cases "\<not> isClosed ne \<or> policy (config s) = Queue")
      case False
      with Some Cons assms show ?thesis
        by (auto simp: enterNext_def loadsCountMoving_iff movingOn_append movingOn_Cons)
    next
      case True
      with Some Cons assms(4) have
        t': "t' = t\<lparr> currentEdgeId := Some (edge_id ne) \<rparr>"
        and s': "edges s' = modifyEdge (edge_id ne) (\<lambda>e. e\<lparr> currentLoad := currentLoad e + 1 \<rparr>) (edges s)"
        by (auto simp: enterNext_def)
      from assms(1,2,3) show ?thesis
        unfolding s' t'
        by (auto simp: modifyEdge_def updateFirst_distinct loadsCountMoving_iff
            movingOn_append movingOn_Cons)
    qed
  qed
qed

lemma advanceTruck_same:
  "state (advanceTruck s ce t) = state t" "currentEdgeId (advanceTruck s ce t) = currentEdgeId t"
  "routePlan (advanceTruck s ce t) = routePlan t"
  by (simp_all add: advanceTruck_def Let_def split: option.split)

lemma shiftPlan_same:
  "state (shiftPlan t) = state t" "currentEdgeId (shiftPlan t) = currentEdgeId t"
  by (simp_all add: shiftPlan_def split: list.split)

lemma lookupEdge_SomeD:
  "lookupEdge es c = Some e \<Longrightarrow> c = Some (edge_id e) \<and> e \<in> set es"
  by (cases c) (auto simp: lookupEdge_def dest: findEdge_SomeD)

lemma lookupEdge_NoneD:
  "lookupEdge es c = None \<Longrightarrow> \<forall>e \<in> set es. c \<noteq> Some (edge_id e)"
  by (cases c) (auto simp: lookupEdge_def findEdge_None_iff)

lemma moveTruck_loads:
  assumes "moveTruck t s = (t', s')"
    and "distinct (map edge_id (edges s))"
    and "loadsCountMoving (edges s) (pre @ t # post)"
  shows "loadsCountMoving (edges s') (pre @ t' # post)"
proof (cases "state t = Moving")
  case False
  with assms show ?thesis by (simp add: moveTruck_def)
next
  case True
  show ?thesis
  proof (cases "lookupEdge (edges s) (currentEdgeId t)")
    case None
    with True assms(1) have "t' = t\<lparr> state := Idle \<rparr>" "s' = s"
      by (auto simp: moveTruck_def)
    with lookupEdge_NoneD[OF None] assms(3) show ?thesis
      by (auto simp: loadsCountMoving_iff movingOn_append movingOn_Cons)
  next
    case (Some ce)
    let ?t2 = "advanceTruck s ce t"
    from lookupEdge_SomeD[OF Some] have cur: "currentEdgeId t = Some (edge_id ce)" by simp
    show ?thesis
    proof (cases "edge_length ce \<le> distanceAlongEdge ?t2")
      case False
      with True Some assms(1) have "t' = ?t2" "s' = s"
        by (auto simp: moveTruck_def Let_def)
      with assms(3) show ?thesis
        by (auto simp: loadsCountMoving_iff movingOn_append movingOn_Cons advanceTruck_same)
    next
      case fin: True
      let ?t3 = "shiftPlan (?t2\<lparr> distanceAlongEdge := 0 \<rparr>)"
      from fin True Some assms(1) have en: "enterNext ?t3 (leaveEdge ce s) = (t', s')"
        by (simp add: moveTruck_def Let_def)
      have left: "loadsCountMoving (edges (leaveEdge ce s)) (pre @ post)"
        using assms(2,3) True cur by (rule leaveEdge_loads)
      have d: "distinct (map edge_id (edges (leaveEdge ce s)))"
        using assms(2) by (simp add: leaveEdge_frame)
      have "state ?t3 = Moving"
        using True by (simp add: shiftPlan_same advanceTruck_same)
      from enterNext_loads[OF d left this en] show ?thesis .
    qed
  qed
qed

lemma moveTrucks_loads:
  assumes "moveTrucks ts s = (ts', s')"
    and "distinct (map edge_id (edges s))"
    and "loadsCountMoving (edges s) (pre @ ts)"
  shows "loadsCountMoving (edges s') (pre @ ts')"
  using assms
proof (induction ts arbitrary: s ts' s' pre)
  case Nil
  then show ?case by simp
next
  case (Cons t ts)
  obtain t1 s1 where one: "moveTruck t s = (t1, s1)" by (cases "moveTruck t s") auto
  obtain ts2 s2 where rest: "moveTrucks ts s1 = (ts2, s2)" by (cases "moveTrucks ts s1") auto
  from Cons.prems(1) one rest have eq: "ts' = t1 # ts2" "s' = s2" by auto
  from moveTruck_loads[OF one Cons.prems(2,3)]
  have "loadsCountMoving (edges s1) ((pre @ [t1]) @ ts)" by simp
  moreover have "distinct (map edge_id (edges s1))"
    using moveTruck_frame[OF one] Cons.prems(2) by simp
  ultimately have "loadsCountMoving (edges s2) ((pre @ [t1]) @ ts2)"
    using Cons.IH[OF rest] by blast
  with eq show ?case by simp
qed

lemma movingOn_filter_finished:
  "movingOn (filter (\<lambda>t. state t \<noteq> Finished) ts) i = movingOn ts i"
  unfolding movingOn_def filter_filter
  by (rule arg_cong[where f=length], rule filter_cong) auto

lemma afterMotion_loads:
  assumes "distinct (map edge_id (edges s))"
    and "loadsCountMoving (edges s) (trucks s)"
  shows "loadsCountMoving (edges (afterMotion s)) (trucks (afterMotion s))"
proof -
  let ?s0 = "s\<lparr> time := time s + dt (config s) \<rparr>"
  obtain ts' s' where m: "moveTrucks (trucks ?s0) ?s0 = (ts', s')"
    by (cases "moveTrucks (trucks ?s0) ?s0") auto
  then have a: "afterMotion s = s'\<lparr> trucks := filter (\<lambda>t. state t \<noteq> Finished) ts' \<rparr>"
    by (simp add: afterMotion_def motionPhase_def)
  from assms have "distinct (map edge_id (edges ?s0))" "loadsCountMoving (edges ?s0) ([] @ trucks ?s0)"
    by simp_all
  from moveTrucks_loads[OF m this] show ?thesis
    by (simp add: a loadsCountMoving_iff movingOn_filter_finished)
qed

lemma movingOn_all2:
  assumes "list_all2 (\<lambda>t t'. state t' = state t \<and> currentEdgeId t' = currentEdgeId t) ts ts'"
  shows "movingOn ts' i = movingOn ts i"
  using assms by (induction rule: list_all2_induct) (simp_all add: movingOn_def)

lemma currentEdgeId_localizeTruck: "currentEdgeId (localizeTruck s zs t) = currentEdgeId t"
proof -
  have "currentEdgeId (frozen u) = currentEdgeId u" for u
    by (simp add: frozen_def)
  with frozen_localizeTruck[of s zs t] show ?thesis by metis
qed

lemma localizationPhase_loads:
  "loadsCountMoving (edges (localizationPhase noise s)) (trucks (localizationPhase noise s))
     = loadsCountMoving (edges s) (trucks s)"
proof -
  have "list_all2 (\<lambda>t t'. state t' = state t \<and> currentEdgeId t' = currentEdgeId t) (trucks s)
          (map (\<lambda>(j, t). localizeTruck s (noise j) t) (enumerate 0 (trucks s)))"
    by (rule list_all2_enumerate_map) (simp add: state_localizeTruck currentEdgeId_localizeTruck)
  from movingOn_all2[OF this] show ?thesis
    by (simp add: localizationPhase_def loadsCountMoving_iff)
qed

lemma congestionPhase_loads:
  "loadsCountMoving (edges (congestionPhase s)) (trucks (congestionPhase s))
     = loadsCountMoving (edges s) (trucks s)"
  by (simp add: congestionPhase_def loadsCountMoving_iff)

lemma rerouteTruck_same:
  assumes "rerouteTruck nmap es t = Some t'"
  shows "state t' = state t \<and> currentEdgeId t' = currentEdgeId t"
  using assms by (auto simp: rerouteTruck_def split: if_splits option.splits)

lemma rerouteAll_same:
  "rerouteAll nmap es ts = Some ts' \<Longrightarrow>
     list_all2 (\<lambda>t t'. state t' = state t \<and> currentEdgeId t' = currentEdgeId t) ts ts'"
proof (induction ts arbitrary: ts')
  case Nil
  then show ?case by simp
next
  case (Cons t ts)
  then obtain t' tl' where t: "rerouteTruck nmap es t = Some t'"
    and tl: "rerouteAll nmap es ts = Some tl'" and ts': "ts' = t' # tl'"
    by (auto split: option.splits)
  from Cons.IH[OF tl] rerouteTruck_same[OF t] ts' show ?case by simp
qed

lemma reroutePhase_loads:
  assumes "reroutePhase s = Some s'"
  shows "loadsCountMoving (edges s') (trucks s') = loadsCountMoving (edges s) (trucks s)"
proof (cases "rerouteDue s")
  case False
  with assms show ?thesis by (simp add: reroutePhase_def)
next
  case True
  with assms obtain ts' where all: "rerouteAll (nodes s) (edges s) (trucks s) = Some ts'"
    and s': "s' = s\<lparr> trucks := ts' \<rparr>"
    by (auto simp: reroutePhase_def)
  from movingOn_all2[OF rerouteAll_same[OF all]] s' show ?thesis
    by (simp add: loadsCountMoving_iff)
qed

lemma tick_loads:
  assumes "tick noise s = Some s'"
    and "distinct (map edge_id (edges s))"
    and "loadsCountMoving (edges s) (trucks s)"
  shows "distinct (map edge_id (edges s')) \<and> loadsCountMoving (edges s') (trucks s')"
proof -
  let ?s3 = "congestionPhase (localizationPhase noise (afterMotion s))"
  from assms(1) have r: "reroutePhase ?s3 = Some s'" by (simp add: tick_def)
  have "map edge_id (edges s') = map edge_id (edges s)"
    unfolding tick_edges[OF assms(1)] by (simp add: afterMotion_frame comp_def)
  moreover have "loadsCountMoving (edges s') (trucks s')"
    using afterMotion_loads[OF assms(2,3)]
    by (simp add: reroutePhase_loads[OF r] congestionPhase_loads localizationPhase_loads)
  ultimately show ?thesis using assms(2) by simp
qed

lemma spawnTruck_loads:
  assumes "spawnTruck rnd a b s = Some (w, s')"
    and "distinct (map edge_id (edges s))"
    and "loadsCountMoving (edges s) (trucks s)"
  shows "distinct (map edge_id (edges s')) \<and> loadsCountMoving (edges s') (trucks s')"
  using assms(1)
proof (cases rule: spawnTruck_cases)
  case unchanged
  with assms show ?thesis by simp
next
  case (created sn r fe)
  have n: "state (newTruck s sn fe (path r) b rnd) = Moving"
    "currentEdgeId (newTruck s sn fe (path r) b rnd) = Some (edge_id fe)"
    by (simp_all add: newTruck_def)
  have "map edge_id (edges s') = map edge_id (edges s)"
    unfolding created(5) by (simp add: modifyEdge_def updateFirst_map_static)
  moreover from assms(2,3) have "loadsCountMoving (edges s') (trucks s')"
    unfolding created(5)
    by (auto simp: modifyEdge_def updateFirst_distinct loadsCountMoving_iff movingOn_append
        movingOn_Cons n movingOn_def[of "[]"])
  ultimately show ?thesis using assms(2) by simp
qed

lemma clearSimulation_loads:
  "loadsCountMoving (edges (clearSimulation s)) (trucks (clearSimulation s))"
  by (simp add: clearSimulation_def loadsCountMoving_iff movingOn_def)

lemma moveTruck_keeps_edge:
  assumes "moveTruck t u = (t', u')" and "state t = Moving"
    and "state t' = Waiting \<or> state t' = Idle"
  shows "currentEdgeId t' = currentEdgeId t"
proof (cases "lookupEdge (edges u) (currentEdgeId t)")
  case None
  with assms show ?thesis by (auto simp: moveTruck_def)
next
  case (Some ce)
  let ?t2 = "advanceTruck u ce t"
  show ?thesis
  proof (cases "edge_length ce \<le> distanceAlongEdge ?t2")
    case False
    with Some assms show ?thesis
      by (auto simp: moveTruck_def Let_def advanceTruck_same)
  next
    case True
    let ?t3 = "shiftPlan (?t2\<lparr> distanceAlongEdge := 0 \<rparr>)"
    from True Some assms(1,2) have en: "enterNext ?t3 (leaveEdge ce u) = (t', u')"
      by (simp add: moveTruck_def Let_def)
    have same: "currentEdgeId ?t3 = currentEdgeId t"
      by (simp add: shiftPlan_same advanceTruck_same)
    have st: "state ?t3 = Moving"
      using assms(2) by (simp add: shiftPlan_same advanceTruck_same)
    from en assms(3) st have "currentEdgeId t' = currentEdgeId ?t3"
      by (auto simp: enterNext_def split: list.splits option.splits if_splits)
    with same show ?thesis by simp
  qed
qed

text \<open>
  C1, as the code has it. When the edge identifiers are distinct and every edge's load is
  the number of moving trucks whose current edge it is, the same holds immediately after
  the motion phase of a tick, after the whole tick, and after a spawn. A moving truck
  that the motion phase leaves waiting or idle keeps the identifier of the edge it left;
  trucks that are not moving are counted in no load.
\<close>

theorem loads_count_moving_trucks:
  assumes "distinct (map edge_id (edges s))"
    and "loadsCountMoving (edges s) (trucks s)"
  shows "loadsCountMoving (edges (afterMotion s)) (trucks (afterMotion s))
       \<and> (\<forall>noise s'. tick noise s = Some s' \<longrightarrow>
            distinct (map edge_id (edges s')) \<and> loadsCountMoving (edges s') (trucks s'))
       \<and> (\<forall>rnd a b w s'. spawnTruck rnd a b s = Some (w, s') \<longrightarrow>
            distinct (map edge_id (edges s')) \<and> loadsCountMoving (edges s') (trucks s'))
       \<and> (\<forall>t u t' u'. moveTruck t u = (t', u') \<and> state t = Moving
              \<and> (state t' = Waiting \<or> state t' = Idle) \<longrightarrow>
            currentEdgeId t' = currentEdgeId t)"
  using afterMotion_loads[OF assms] tick_loads[OF _ assms] spawnTruck_loads[OF _ assms]
    moveTruck_keeps_edge
  by blast

theorem loads_count_moving_trucks_witness:
  "distinct (map edge_id (edges lineEngine))
   \<and> loadsCountMoving (edges lineEngine) (trucks lineEngine)
   \<and> spawnTruck 0 ''A'' ''C'' lineEngine = Some ([], lineSpawned)
   \<and> distinct (map edge_id (edges lineSpawned))
   \<and> loadsCountMoving (edges lineSpawned) (trucks lineSpawned)
   \<and> afterMotion lineSpawned = lineMoved
   \<and> loadsCountMoving (edges lineMoved) (trucks lineMoved)
   \<and> tick quietTick lineSpawned \<noteq> None
   \<and> loadsCountMoving (edges (the (tick quietTick lineSpawned)))
         (trucks (the (tick quietTick lineSpawned)))
   \<and> state lineTruck = Moving
   \<and> state (fst (moveTruck lineTruck (toggleClosure ''bc'' lineSpawned))) = Waiting
   \<and> currentEdgeId (fst (moveTruck lineTruck (toggleClosure ''bc'' lineSpawned))) = Some ''ab''"
proof -
  let ?m = "moveTruck lineTruck (toggleClosure ''bc'' lineSpawned)"
  have m: "state lineTruck = Moving" "state (fst ?m) = Waiting"
    by (simp_all add: moveTruck_def lookupEdge_def findEdge_def
      advanceTruck_def shiftPlan_def leaveEdge_def enterNext_def modifyEdge_def toggleClosure_def
      getPointOnSegment_def Let_def
      lineSpawned_def lineEngine_def lineConfig_def lineNodes_def lineTruck_def
      mkEdge_def mkNode_def)
  have c: "currentEdgeId lineTruck = Some ''ab''"
    by (simp add: lineTruck_def)
  have h0: "distinct (map edge_id (edges lineEngine))"
    "loadsCountMoving (edges lineEngine) (trucks lineEngine)"
    by (simp_all add: lineEngine_def lineEdges_def mkEdge_def loadsCountMoving_def movingOn_def)
  from loads_count_moving_trucks[OF h0] spawn_line
  have h1: "distinct (map edge_id (edges lineSpawned))"
    "loadsCountMoving (edges lineSpawned) (trucks lineSpawned)"
    by blast+
  obtain s' where s': "tick quietTick lineSpawned = Some s'"
    using tick_lineSpawned by blast
  from loads_count_moving_trucks[OF h1] s'
  have "loadsCountMoving (edges (afterMotion lineSpawned)) (trucks (afterMotion lineSpawned))"
    "loadsCountMoving (edges s') (trucks s')"
    by blast+
  moreover from loads_count_moving_trucks[OF h1] m
  have "currentEdgeId (fst ?m) = currentEdgeId lineTruck"
    by (metis prod.collapse)
  ultimately show ?thesis
    using h0 h1 s' spawn_line afterMotion_lineSpawned m c by simp
qed

text \<open>
  C1, as stated, fails. The truck spawned on the line leaves \<open>ab\<close> in the first tick and
  finds \<open>bc\<close> closed: it waits with \<open>ab\<close> still as its current edge, while the load of \<open>ab\<close>
  is 0. Before the tick every load equalled the number of trucks on the edge.
\<close>

theorem waiting_truck_not_in_load:
  "spawnTruck 0 ''A'' ''C'' lineEngine = Some ([], lineSpawned)
   \<and> loadsCountActive (toggleClosure ''bc'' lineSpawned)
   \<and> afterMotion (toggleClosure ''bc'' lineSpawned) = lineBlocked
   \<and> map currentLoad (edges lineBlocked) = [0, 0]
   \<and> map currentEdgeId (trucks lineBlocked) = [Some ''ab'']
   \<and> \<not> loadsCountActive lineBlocked"
proof -
  have "afterMotion (toggleClosure ''bc'' lineSpawned) = lineBlocked"
    by (simp add: afterMotion_def motionPhase_def moveTruck_def lookupEdge_def findEdge_def
      advanceTruck_def shiftPlan_def leaveEdge_def enterNext_def modifyEdge_def toggleClosure_def
      getPointOnSegment_def Let_def
      lineSpawned_def lineBlocked_def lineEngine_def lineConfig_def lineNodes_def lineTruck_def
      mkEdge_def mkNode_def)
  moreover have "loadsCountActive (toggleClosure ''bc'' lineSpawned)"
    by (simp add: loadsCountActive_def toggleClosure_def modifyEdge_def lineSpawned_def
        lineEngine_def lineTruck_def mkEdge_def onEdge_def)
  moreover have "\<not> loadsCountActive lineBlocked"
    "map currentLoad (edges lineBlocked) = [0, 0]"
    "map currentEdgeId (trucks lineBlocked) = [Some ''ab'']"
    by (simp_all add: loadsCountActive_def lineBlocked_def lineEngine_def lineTruck_def
        mkEdge_def onEdge_def)
  ultimately show ?thesis using spawn_line by simp
qed

end
